theory Spec2Isabelle
  imports Main "HOL-Library.AList"
begin

section \<open>Strings\<close>

text \<open>
  A JavaScript string is a sequence of UTF-16 code units and \<open>length\<close> counts code
  units.  The model uses \<^typ>\<open>string\<close>, one \<^typ>\<open>char\<close> per code unit, which
  covers the code units \<open>0x00\<close> to \<open>0xFF\<close>.
\<close>

text \<open>
  The class \<open>\s\<close> of a regular expression and the characters removed by
  \<open>String.prototype.trim\<close> are the same set (white space and line terminators); in the
  range of the model: TAB, LF, VT, FF, CR, SP and NBSP.
\<close>

definition isSpace :: "char \<Rightarrow> bool" where
  "isSpace c = (c \<in> set [CHR 0x09, CHR 0x0A, CHR 0x0B, CHR 0x0C, CHR 0x0D, CHR 0x20, CHR 0xA0])"

text \<open>Line terminators (\<open>^\<close>, \<open>$\<close> and \<open>.\<close> of a regular expression): LF and CR.\<close>

definition isLineTerminator :: "char \<Rightarrow> bool" where
  "isLineTerminator c = (c = CHR 0x0A \<or> c = CHR 0x0D)"

definition trimStart :: "string \<Rightarrow> string" where
  "trimStart s = dropWhile isSpace s"

definition trimEnd :: "string \<Rightarrow> string" where
  "trimEnd s = rev (dropWhile isSpace (rev s))"

definition trim :: "string \<Rightarrow> string" where
  "trim s = trimEnd (trimStart s)"

text \<open>\<open>s.startsWith(p)\<close> and \<open>s.includes(p)\<close>.\<close>

definition startsWith :: "string \<Rightarrow> string \<Rightarrow> bool" where
  "startsWith s p = (take (length p) s = p)"

fun includes_str :: "string \<Rightarrow> string \<Rightarrow> bool" where
  "includes_str [] p = (p = [])"
| "includes_str (c # cs) p = (startsWith (c # cs) p \<or> includes_str cs p)"

text \<open>\<open>xs.join(sep)\<close>.\<close>

fun join :: "string \<Rightarrow> string list \<Rightarrow> string" where
  "join sep [] = []"
| "join sep [x] = x"
| "join sep (x # y # ys) = x @ sep @ join sep (y # ys)"

text \<open>The decimal rendering of a non-negative integer, as a template literal prints it.\<close>

definition digitChar :: "nat \<Rightarrow> char" where
  "digitChar d = ''0123456789'' ! d"

fun natToString :: "nat \<Rightarrow> string" where
  "natToString n = (if n < 10 then [digitChar n] else natToString (n div 10) @ [digitChar (n mod 10)])"

declare natToString.simps [simp del]

text \<open>
  \<open>toLowerCase\<close> on the code units of the model: \<open>A\<close> to \<open>Z\<close>, and the Latin-1
  capitals \<open>0xC0\<close> to \<open>0xDE\<close> except the multiplication sign \<open>0xD7\<close>, move up by 32.
\<close>

definition lowerChar :: "char \<Rightarrow> char" where
  "lowerChar c =
     (let n = (of_char c :: nat) in
      if (65 \<le> n \<and> n \<le> 90) \<or> (192 \<le> n \<and> n \<le> 222 \<and> n \<noteq> 215) then char_of (n + 32) else c)"

definition toLowerCase :: "string \<Rightarrow> string" where
  "toLowerCase s = map lowerChar s"

section \<open>Regular expressions\<close>

text \<open>
  The patterns of \<open>parsing.ts\<close> use literals, character classes, greedy and lazy stars
  over one character class, one capture group and the anchors \<open>^\<close> and \<open>$\<close> under
  the \<open>m\<close> flag.  A pattern is a list of nodes; \<open>rmatch\<close> is the backtracking matcher
  of ECMAScript at one start position: a greedy star tries one more character before it tries
  the rest of the pattern, a lazy star the other way round.  The matcher carries the character
  before the position (for \<open>^\<close>), whether the capture group is open, and the captured text
  so far (reversed); it returns the captured text, the last character before the end of the
  match, and the input after the match.
\<close>

datatype node =
    Chr "char \<Rightarrow> bool"
  | Star bool "char \<Rightarrow> bool"
  | Open
  | Close
  | Bol
  | Eol

type_synonym match = "string \<times> char option \<times> string"

fun rmatch :: "node list \<Rightarrow> char option \<Rightarrow> bool \<Rightarrow> string \<Rightarrow> string \<Rightarrow> match option" where
  "rmatch [] prev rec acc s = Some (rev acc, prev, s)"
| "rmatch (Chr p # r) prev rec acc [] = None"
| "rmatch (Chr p # r) prev rec acc (c # cs) =
     (if p c then rmatch r (Some c) rec (if rec then c # acc else acc) cs else None)"
| "rmatch (Star greedy p # r) prev rec acc [] = rmatch r prev rec acc []"
| "rmatch (Star greedy p # r) prev rec acc (c # cs) =
     (if greedy then
        (case (if p c then rmatch (Star greedy p # r) (Some c) rec (if rec then c # acc else acc) cs
               else None) of
           Some m \<Rightarrow> Some m
         | None \<Rightarrow> rmatch r prev rec acc (c # cs))
      else
        (case rmatch r prev rec acc (c # cs) of
           Some m \<Rightarrow> Some m
         | None \<Rightarrow>
             (if p c then rmatch (Star greedy p # r) (Some c) rec (if rec then c # acc else acc) cs
              else None)))"
| "rmatch (Open # r) prev rec acc s = rmatch r prev True [] s"
| "rmatch (Close # r) prev rec acc s = rmatch r prev False acc s"
| "rmatch (Bol # r) prev rec acc s =
     (case prev of
        None \<Rightarrow> rmatch r prev rec acc s
      | Some c \<Rightarrow> if isLineTerminator c then rmatch r prev rec acc s else None)"
| "rmatch (Eol # r) prev rec acc s =
     (case s of
        [] \<Rightarrow> rmatch r prev rec acc s
      | c # cs \<Rightarrow> if isLineTerminator c then rmatch r prev rec acc s else None)"

text \<open>\<open>RegExp.prototype.exec\<close>: the first start position, from the left, with a match.\<close>

fun search :: "node list \<Rightarrow> char option \<Rightarrow> string \<Rightarrow> match option" where
  "search pat prev [] = rmatch pat prev False [] []"
| "search pat prev (c # cs) =
     (case rmatch pat prev False [] (c # cs) of
        Some m \<Rightarrow> Some m
      | None \<Rightarrow> search pat (Some c) cs)"

definition lit :: "string \<Rightarrow> node list" where
  "lit s = map (\<lambda>c. Chr ((=) c)) s"

definition anyChar :: "char \<Rightarrow> bool" where
  "anyChar c = True"

definition dotChar :: "char \<Rightarrow> bool" where
  "dotChar c = (\<not> isLineTerminator c)"

text \<open>The pattern \<open>```repl\s*\n([\s\S]*?)\n```\<close> of \<open>findCodeBlocks\<close>.\<close>

definition codeBlockPattern :: "node list" where
  "codeBlockPattern =
     lit ''```repl'' @ [Star True isSpace, Chr ((=) (CHR 0x0A)), Open, Star False anyChar, Close]
       @ lit (CHR 0x0A # ''```'')"

text \<open>The pattern \<open>^\s*FINAL_VAR\((.*?)\)\<close> (flag \<open>m\<close>) of \<open>findFinalAnswer\<close>.\<close>

definition finalVarPattern :: "node list" where
  "finalVarPattern =
     [Bol, Star True isSpace] @ lit ''FINAL_VAR(''
       @ [Open, Star False dotChar, Close, Chr ((=) (CHR '')''))]"

text \<open>
  The pattern \<open>^\s*FINAL\((.*)\)\s*$\<close> (flags \<open>m\<close> and \<open>s\<close>: the dot matches
  every character) of \<open>findFinalAnswer\<close>.
\<close>

definition finalPattern :: "node list" where
  "finalPattern =
     [Bol, Star True isSpace] @ lit ''FINAL(''
       @ [Open, Star True anyChar, Close, Chr ((=) (CHR '')'')), Star True isSpace, Eol]"

section \<open>Data model (\<open>types.ts\<close>)\<close>

text \<open>
  Wall-clock durations (\<open>executionTime\<close>, \<open>iterationTime\<close>) and timestamps are not part
  of the model.  A value of type \<open>unknown\<close> is a JSON value; the payload of a number is not
  inspected by the code modelled here.
\<close>

datatype jsvalue =
    VNull
  | VBoolean bool
  | VNumber int
  | VString string
  | VArray "jsvalue list"
  | VObject "(string \<times> jsvalue) list"

datatype role = System | User | Assistant

record Message =
  role :: role
  content :: string

record ModelUsageSummary =
  totalCalls :: nat
  totalInputTokens :: nat
  totalOutputTokens :: nat

text \<open>
  A prompt is a string, a list of messages, or another object; the code reads such an object
  only through \<open>JSON.stringify\<close>, so it is given by that text.
\<close>

datatype prompt = PText string | PMessages "Message list" | PObject string

record RLMChatCompletion =
  rootModel :: string
  prompt :: prompt
  response :: string
  usageSummary :: "(string \<times> ModelUsageSummary) list"

text \<open>An object is the list of its entries, in the order of \<open>Object.entries\<close>.\<close>

record REPLResult =
  stdout :: string
  stderr :: string
  locals :: "(string \<times> jsvalue) list"
  rlmCalls :: "RLMChatCompletion list"

record CodeBlock =
  code :: string
  result :: REPLResult

record RLMIteration =
  it_prompt :: "Message list"
  it_response :: string
  codeBlocks :: "CodeBlock list"
  finalAnswer :: "string option"

section \<open>Parsing (\<open>parsing.ts\<close>)\<close>

subsection \<open>\<open>findCodeBlocks\<close>\<close>

text \<open>
  The loop \<open>while ((match = pattern.exec(text)) !== null)\<close> of a pattern with the flag
  \<open>g\<close>: each search starts where the match before it ended.
\<close>

function findCodeBlocksFrom :: "char option \<Rightarrow> string \<Rightarrow> string list" where
  "findCodeBlocksFrom prev s =
     (case search codeBlockPattern prev s of
        None \<Rightarrow> []
      | Some (cap, prev', rest) \<Rightarrow> trim cap # findCodeBlocksFrom prev' rest)"
  by pat_completeness auto
termination
proof (relation "measure (\<lambda>(prev, s). length s)")
  show "wf (measure (\<lambda>(prev :: char option, s :: string). length s))"
    by simp
next
  fix prev :: "char option" and s :: string and m cap y prev' rest
  assume found: "search codeBlockPattern prev s = Some m"
    and m: "(cap, y) = m" "(prev', rest) = y"
  have shorter: "length (snd (snd m')) \<le> length t"
    if "rmatch pat q rec acc t = Some m'" for pat q rec acc t m'
    using that
    by (induction pat q rec acc t arbitrary: m' rule: rmatch.induct)
       (auto split: if_splits option.splits list.splits)
  have "length (snd (snd m')) < length t"
    if "search (Chr p # r) q t = Some m'" for p r q t m'
    using that
  proof (induction t arbitrary: q)
    case Nil
    then show ?case by simp
  next
    case (Cons c cs)
    show ?case
    proof (cases "rmatch (Chr p # r) q False [] (c # cs)")
      case None
      with Cons.prems have "search (Chr p # r) (Some c) cs = Some m'" by simp
      from Cons.IH[OF this] show ?thesis by simp
    next
      case (Some m'')
      with Cons.prems have eq: "m'' = m'" by simp
      from Some have "rmatch r (Some c) False [] cs = Some m''" by (simp split: if_splits)
      from shorter[OF this] eq show ?thesis by simp
    qed
  qed
  from this[of "(=) (CHR 0x60)" _ prev s m] found have "length (snd (snd m)) < length s"
    by (simp add: codeBlockPattern_def lit_def)
  with m show "((prev', rest), (prev, s)) \<in> measure (\<lambda>(prev, s). length s)"
    by auto
qed

declare findCodeBlocksFrom.simps [simp del]

definition findCodeBlocks :: "string \<Rightarrow> string list" where
  "findCodeBlocks text = findCodeBlocksFrom None text"

subsection \<open>The sandbox interface (\<open>sandboxes/base.ts\<close>)\<close>

text \<open>
  \<open>executeCode\<close> returns a result or a promise of one.  A sandbox is given by its
  operations on a state \<open>'s\<close>: everything an execution can change (the REPL state, the
  processes behind it, the usage the router tracks while it serves the hook calls of the
  executed code).  The persistence extension is optional.
\<close>

datatype 'a maybePromise = Now 'a | Later 'a

record 's Persistence =
  updateHandlerAddress :: "'s \<Rightarrow> 's"
  addContext :: "prompt \<Rightarrow> 's \<Rightarrow> 's"
  getContextCount :: "'s \<Rightarrow> nat"
  addHistory :: "Message list \<Rightarrow> 's \<Rightarrow> 's"
  getHistoryCount :: "'s \<Rightarrow> nat"

record 's Sandbox =
  executeCode :: "string \<Rightarrow> 's \<Rightarrow> REPLResult maybePromise \<times> 's"
  cleanup :: "'s \<Rightarrow> 's"
  persistence :: "'s Persistence option"

definition supportsPersistence :: "'s Sandbox \<Rightarrow> bool" where
  "supportsPersistence sandbox = (persistence sandbox \<noteq> None)"

subsection \<open>\<open>findFinalAnswer\<close>\<close>

text \<open>\<open>JSON.stringify\<close> of a string.\<close>

definition hexDigit :: "nat \<Rightarrow> char" where
  "hexDigit d = ''0123456789abcdef'' ! d"

definition escapeChar :: "char \<Rightarrow> string" where
  "escapeChar c =
     (if c = CHR 0x22 then [CHR 0x5C, CHR 0x22]
      else if c = CHR 0x5C then [CHR 0x5C, CHR 0x5C]
      else if c = CHR 0x08 then [CHR 0x5C, CHR ''b'']
      else if c = CHR 0x0C then [CHR 0x5C, CHR ''f'']
      else if c = CHR 0x0A then [CHR 0x5C, CHR ''n'']
      else if c = CHR 0x0D then [CHR 0x5C, CHR ''r'']
      else if c = CHR 0x09 then [CHR 0x5C, CHR ''t'']
      else if (of_char c :: nat) < 32
        then [CHR 0x5C] @ ''u00'' @ [hexDigit ((of_char c :: nat) div 16), hexDigit ((of_char c :: nat) mod 16)]
      else [c])"

definition jsonString :: "string \<Rightarrow> string" where
  "jsonString s = [CHR 0x22] @ concat (map escapeChar s) @ [CHR 0x22]"

text \<open>\<open>.replace(/^["']|["']$/g, "")\<close>: one quote at the start and one at the end.\<close>

definition isQuote :: "char \<Rightarrow> bool" where
  "isQuote c = (c = CHR 0x22 \<or> c = CHR 0x27)"

definition stripQuotes :: "string \<Rightarrow> string" where
  "stripQuotes s =
     (let s1 = (case s of [] \<Rightarrow> [] | c # cs \<Rightarrow> if isQuote c then cs else s)
      in if s1 \<noteq> [] \<and> isQuote (last s1) then butlast s1 else s1)"

text \<open>
  The branch taken once the pattern of \<open>FINAL_VAR\<close> has matched, \<open>arg\<close> being the
  captured text: with a sandbox, one execution that prints the variable; its result is read
  only when it is not a promise.
\<close>

definition finalVarAnswer :: "string \<Rightarrow> 's Sandbox option \<Rightarrow> 's \<Rightarrow> string option \<times> 's" where
  "finalVarAnswer arg sandbox st =
     (let variableName = stripQuotes (trim arg) in
      case sandbox of
        None \<Rightarrow> (None, st)
      | Some sb \<Rightarrow>
          (case executeCode sb (''print(FINAL_VAR('' @ jsonString variableName @ ''))'') st of
             (Now syncResult, st') \<Rightarrow>
               (let finalAnswer = trim (stdout syncResult) in
                if finalAnswer = [] then (Some (trim (stderr syncResult)), st')
                else (Some finalAnswer, st'))
           | (Later r, st') \<Rightarrow> (None, st')))"

definition findFinalAnswer :: "string \<Rightarrow> 's Sandbox option \<Rightarrow> 's \<Rightarrow> string option \<times> 's" where
  "findFinalAnswer text sandbox st =
     (case search finalVarPattern None text of
        Some (arg, m) \<Rightarrow> finalVarAnswer arg sandbox st
      | None \<Rightarrow>
          (case search finalPattern None text of
             Some (inner, m) \<Rightarrow> (Some (trim inner), st)
           | None \<Rightarrow> (None, st)))"

subsection \<open>\<open>formatExecutionResult\<close> and \<open>formatIteration\<close>\<close>

text \<open>
  The test on \<open>typeof value\<close>: strings, numbers, booleans, arrays and objects other than
  \<open>null\<close>.
\<close>

fun isImportantValue :: "jsvalue \<Rightarrow> bool" where
  "isImportantValue VNull = False"
| "isImportantValue v = True"

definition importantVars :: "(string \<times> jsvalue) list \<Rightarrow> string list" where
  "importantVars ls =
     map fst (filter (\<lambda>(key, v).
        \<not> startsWith key ''_''
        \<and> key \<notin> set [''__builtins__'', ''__name__'', ''__doc__'']
        \<and> isImportantValue v) ls)"

definition formatExecutionResult :: "REPLResult \<Rightarrow> string" where
  "formatExecutionResult r =
     (let parts =
        (if stdout r \<noteq> [] then [CHR 0x0A # stdout r] else [])
        @ (if stderr r \<noteq> [] then [CHR 0x0A # stderr r] else [])
        @ (if importantVars (locals r) \<noteq> []
           then [''REPL variables: ['' @ join '', '' (map (\<lambda>v. [CHR 0x27] @ v @ [CHR 0x27]) (importantVars (locals r)))
                 @ '']'' @ [CHR 0x0A]]
           else [])
      in if parts \<noteq> [] then join [CHR 0x0A, CHR 0x0A] parts else ''No output'')"

text \<open>The rendering of one result, cut at \<open>maxCharacterLength\<close>.\<close>

definition clampResult :: "nat \<Rightarrow> string \<Rightarrow> string" where
  "clampResult maxCharacterLength r =
     (if length r > maxCharacterLength
      then take maxCharacterLength r @ ''... + ['' @ natToString (length r - maxCharacterLength) @ '' chars...]''
      else r)"

definition blockMessage :: "nat \<Rightarrow> CodeBlock \<Rightarrow> Message" where
  "blockMessage maxCharacterLength codeBlock =
     \<lparr>role = User,
      content = ''Code executed:'' @ [CHR 0x0A] @ ''```python'' @ [CHR 0x0A] @ code codeBlock @ [CHR 0x0A]
        @ ''```'' @ [CHR 0x0A, CHR 0x0A] @ ''REPL output:'' @ [CHR 0x0A]
        @ clampResult maxCharacterLength (formatExecutionResult (result codeBlock))\<rparr>"

definition formatIterationWith :: "nat \<Rightarrow> RLMIteration \<Rightarrow> Message list" where
  "formatIterationWith maxCharacterLength iteration =
     \<lparr>role = Assistant, content = it_response iteration\<rparr>
       # map (blockMessage maxCharacterLength) (codeBlocks iteration)"

text \<open>The default \<open>maxCharacterLength = 20000\<close>.\<close>

definition formatIteration :: "RLMIteration \<Rightarrow> Message list" where
  "formatIteration iteration = formatIterationWith 20000 iteration"

section \<open>Helpers (\<open>helpers.ts\<close>)\<close>

text \<open>
  \<open>filterSensitiveKeys\<close>: the loop over \<open>Object.entries(kwargs)\<close>, with its three
  \<open>continue\<close> statements; the assignment \<open>filtered[key] = value\<close> adds an entry at the
  end or replaces the value of a key that is there.
\<close>

fun filterSensitiveLoop :: "(string \<times> 'v) list \<Rightarrow> (string \<times> 'v) list \<Rightarrow> (string \<times> 'v) list" where
  "filterSensitiveLoop [] filtered = filtered"
| "filterSensitiveLoop ((key, v) # entries) filtered =
     (let lower = toLowerCase key in
      if includes_str lower ''api'' \<and> includes_str lower ''key'' then filterSensitiveLoop entries filtered
      else if includes_str lower ''secret'' then filterSensitiveLoop entries filtered
      else if includes_str lower ''token'' \<and> includes_str lower ''auth'' then filterSensitiveLoop entries filtered
      else filterSensitiveLoop entries (AList.update key v filtered))"

definition filterSensitiveKeys :: "(string \<times> 'v) list \<Rightarrow> (string \<times> 'v) list" where
  "filterSensitiveKeys kwargs = filterSensitiveLoop kwargs []"

section \<open>The router (\<open>lm-handler.ts\<close>)\<close>

subsection \<open>The usage tracker\<close>

text \<open>A \<open>Map\<close> is the list of its entries in insertion order.\<close>

record UsageTracker =
  callCounts :: "(string \<times> nat) list"
  inputTokens :: "(string \<times> nat) list"
  outputTokens :: "(string \<times> nat) list"
  lastInputTokens :: nat
  lastOutputTokens :: nat

definition newUsageTracker :: UsageTracker where
  "newUsageTracker =
     \<lparr>callCounts = [], inputTokens = [], outputTokens = [], lastInputTokens = 0, lastOutputTokens = 0\<rparr>"

text \<open>\<open>m.get(k) ?? 0\<close>.\<close>

definition getOr0 :: "(string \<times> nat) list \<Rightarrow> string \<Rightarrow> nat" where
  "getOr0 m k = (case map_of m k of None \<Rightarrow> 0 | Some n \<Rightarrow> n)"

definition track :: "string \<Rightarrow> nat \<Rightarrow> nat \<Rightarrow> UsageTracker \<Rightarrow> UsageTracker" where
  "track model input output t =
     t\<lparr>callCounts := AList.update model (getOr0 (callCounts t) model + 1) (callCounts t),
       inputTokens := AList.update model (getOr0 (inputTokens t) model + input) (inputTokens t),
       outputTokens := AList.update model (getOr0 (outputTokens t) model + output) (outputTokens t),
       lastInputTokens := input,
       lastOutputTokens := output\<rparr>"

definition getUsageSummary :: "UsageTracker \<Rightarrow> (string \<times> ModelUsageSummary) list" where
  "getUsageSummary t =
     map (\<lambda>model. (model,
            \<lparr>totalCalls = getOr0 (callCounts t) model,
             totalInputTokens = getOr0 (inputTokens t) model,
             totalOutputTokens = getOr0 (outputTokens t) model\<rparr>))
         (map fst (callCounts t))"

definition getLastUsage :: "UsageTracker \<Rightarrow> ModelUsageSummary" where
  "getLastUsage t =
     \<lparr>totalCalls = 1, totalInputTokens = lastInputTokens t, totalOutputTokens = lastOutputTokens t\<rparr>"

subsection \<open>The handler\<close>

text \<open>
  A language model of the AI SDK: its \<open>modelId\<close>, and which adapter object it is.
  \<open>generateText\<close> is the call of the adapter, a parameter of the model: on the state
  \<open>'w\<close> of the provider it answers with a text and an optional usage, or throws.
\<close>

record LanguageModel =
  modelId :: string
  adapter :: nat

record GenResult =
  gen_text :: string
  promptTokens :: "nat option"
  completionTokens :: "nat option"

datatype SandboxType = Local | Docker

text \<open>What the code throws: the failure of an adapter, and the error of the validation.\<close>

datatype error = LMError string | PersistentNotSupported SandboxType

type_synonym 'w generateText = "LanguageModel \<Rightarrow> Message list \<Rightarrow> 'w \<Rightarrow> (error + GenResult) \<times> 'w"

text \<open>
  The HTTP server, host and port of the handler are not modelled.  \<open>adapterCalls\<close> is not
  a field of the class: it records, in order, the adapter calls the handler made, for the
  statements about them.
\<close>

record LMHandler =
  defaultModel :: LanguageModel
  h_subModel :: "LanguageModel option"
  models :: "(string \<times> LanguageModel) list"
  tracker :: UsageTracker
  adapterCalls :: "(LanguageModel \<times> Message list) list"

definition registerModel :: "string \<Rightarrow> LanguageModel \<Rightarrow> LMHandler \<Rightarrow> LMHandler" where
  "registerModel name m h = h\<lparr>models := AList.update name m (models h)\<rparr>"

definition newLMHandler :: "LanguageModel \<Rightarrow> LanguageModel option \<Rightarrow> LMHandler" where
  "newLMHandler dm sm =
     registerModel (modelId dm) dm
       \<lparr>defaultModel = dm, h_subModel = sm, models = [], tracker = newUsageTracker, adapterCalls = []\<rparr>"

text \<open>
  \<open>getModel(modelName, depth)\<close>: \<open>modelName\<close> is absent (\<open>None\<close>) or a string, and the
  empty string is falsy.
\<close>

definition getModel :: "LMHandler \<Rightarrow> string option \<Rightarrow> int \<Rightarrow> LanguageModel" where
  "getModel h modelName depth =
     (case (case modelName of
              None \<Rightarrow> None
            | Some n \<Rightarrow> if n \<noteq> [] then map_of (models h) n else None) of
        Some m \<Rightarrow> m
      | None \<Rightarrow>
          (case h_subModel h of
             Some sm \<Rightarrow> if depth = 1 then sm else defaultModel h
           | None \<Rightarrow> defaultModel h))"

definition roleName :: "role \<Rightarrow> string" where
  "roleName r = (case r of System \<Rightarrow> ''system'' | User \<Rightarrow> ''user'' | Assistant \<Rightarrow> ''assistant'')"

definition normalisePrompt :: "prompt \<Rightarrow> Message list" where
  "normalisePrompt p =
     (case p of
        PText s \<Rightarrow> [\<lparr>role = User, content = s\<rparr>]
      | PMessages ms \<Rightarrow> ms
      | PObject json \<Rightarrow> [\<lparr>role = User, content = json\<rparr>])"

definition orZero :: "nat option \<Rightarrow> nat" where
  "orZero x = (case x of None \<Rightarrow> 0 | Some n \<Rightarrow> n)"

text \<open>\<open>modelName ?? model.modelId\<close>.\<close>

definition trackedId :: "string option \<Rightarrow> LanguageModel \<Rightarrow> string" where
  "trackedId modelName m = (case modelName of None \<Rightarrow> modelId m | Some n \<Rightarrow> n)"

text \<open>The body of a request to \<open>/llm_query\<close>, and the answer to it.\<close>

record HookRequest =
  rq_prompt :: prompt
  rq_model :: "string option"
  rq_depth :: "int option"

record HookResponse =
  hr_response :: string
  rlm_call :: RLMChatCompletion

definition handleSingle ::
  "'w generateText \<Rightarrow> HookRequest \<Rightarrow> LMHandler \<Rightarrow> 'w \<Rightarrow> (error + HookResponse) \<times> LMHandler \<times> 'w" where
  "handleSingle gen data h w =
     (let modelName = rq_model data;
          depth = (case rq_depth data of None \<Rightarrow> 0 | Some d \<Rightarrow> d);
          m = getModel h modelName depth;
          messages = normalisePrompt (rq_prompt data);
          h1 = h\<lparr>adapterCalls := adapterCalls h @ [(m, messages)]\<rparr>
      in case gen m messages w of
           (Inl e, w') \<Rightarrow> (Inl e, h1, w')
         | (Inr res, w') \<Rightarrow>
             (let inTok = orZero (promptTokens res);
                  outTok = orZero (completionTokens res);
                  mid = trackedId modelName m
              in (Inr \<lparr>hr_response = gen_text res,
                       rlm_call = \<lparr>rootModel = mid, prompt = rq_prompt data, response = gen_text res,
                                    usageSummary = [(mid, \<lparr>totalCalls = 1, totalInputTokens = inTok,
                                                            totalOutputTokens = outTok\<rparr>)]\<rparr>\<rparr>,
                  h1\<lparr>tracker := track mid inTok outTok (tracker h1)\<rparr>, w')))"

text \<open>The direct completion call of the main process: \<open>getModel(modelName)\<close>, depth 0.\<close>

definition LMHandler_completion ::
  "'w generateText \<Rightarrow> prompt \<Rightarrow> string option \<Rightarrow> LMHandler \<Rightarrow> 'w \<Rightarrow> (error + string) \<times> LMHandler \<times> 'w" where
  "LMHandler_completion gen p modelName h w =
     (let m = getModel h modelName 0;
          messages = normalisePrompt p;
          h1 = h\<lparr>adapterCalls := adapterCalls h @ [(m, messages)]\<rparr>
      in case gen m messages w of
           (Inl e, w') \<Rightarrow> (Inl e, h1, w')
         | (Inr res, w') \<Rightarrow>
             (Inr (gen_text res),
              h1\<lparr>tracker := track (trackedId modelName m) (orZero (promptTokens res))
                                (orZero (completionTokens res)) (tracker h1)\<rparr>,
              w'))"

section \<open>The local sandbox (\<open>sandboxes/local.ts\<close>)\<close>

text \<open>
  What \<open>execSync\<close> gives: the standard output of a child that exited with status 0, or
  an error that may carry the two streams.
\<close>

datatype execOutcome = Exited string | Failed "string option" "string option"

text \<open>The variables \<open>stdout\<close> and \<open>stderr\<close> after the \<open>try\<close> around \<open>execSync\<close>.\<close>

definition childStreams :: "execOutcome \<Rightarrow> string \<times> string" where
  "childStreams oc =
     (case oc of
        Exited out \<Rightarrow> (out, [])
      | Failed out err \<Rightarrow> ((case out of None \<Rightarrow> [] | Some x \<Rightarrow> x), (case err of None \<Rightarrow> [] | Some x \<Rightarrow> x)))"

text \<open>\<open>s.split("\n")\<close>.\<close>

fun splitLines :: "string \<Rightarrow> string list" where
  "splitLines [] = [[]]"
| "splitLines (c # cs) =
     (if c = CHR 0x0A then [] # splitLines cs
      else (case splitLines cs of [] \<Rightarrow> [[c]] | l # ls \<Rightarrow> (c # l) # ls))"

definition lastLine :: "string \<Rightarrow> string" where
  "lastLine out = (case splitLines (trimEnd out) of [] \<Rightarrow> [] | l # ls \<Rightarrow> last (l # ls))"

text \<open>
  The structured record, as the type annotation of \<open>data\<close> has it: every field optional.
  \<open>JSON.parse\<close> is a parameter of the model: \<open>None\<close> when it throws.
\<close>

record RawUsage =
  total_calls :: nat
  total_input_tokens :: nat
  total_output_tokens :: nat

record RawCall =
  root_model :: string
  raw_prompt :: string
  raw_response :: string
  model_usage_summaries :: "(string \<times> RawUsage) list option"

record Structured =
  s_stdout :: "string option"
  s_stderr :: "string option"
  s_locals :: "(string \<times> jsvalue) list option"
  s_rlm_calls :: "RawCall list option"

definition convertCall :: "RawCall \<Rightarrow> RLMChatCompletion" where
  "convertCall call =
     \<lparr>rootModel = root_model call,
      prompt = PText (raw_prompt call),
      response = raw_response call,
      usageSummary =
        map (\<lambda>(m, usage). (m, \<lparr>totalCalls = total_calls usage,
                                totalInputTokens = total_input_tokens usage,
                                totalOutputTokens = total_output_tokens usage\<rparr>))
            (case model_usage_summaries call of None \<Rightarrow> [] | Some us \<Rightarrow> us)\<rparr>"

text \<open>The part of \<open>executeCode\<close> after the child has run.\<close>

definition parseResult :: "(string \<Rightarrow> Structured option) \<Rightarrow> execOutcome \<Rightarrow> REPLResult" where
  "parseResult jsonParse oc =
     (case childStreams oc of
        (out, err) \<Rightarrow>
          (case jsonParse (lastLine out) of
             Some d \<Rightarrow>
               \<lparr>stdout = (case s_stdout d of None \<Rightarrow> [] | Some x \<Rightarrow> x),
                stderr = (case s_stderr d of None \<Rightarrow> [] | Some x \<Rightarrow> x) @ err,
                locals = (case s_locals d of None \<Rightarrow> [] | Some x \<Rightarrow> x),
                rlmCalls = (case s_rlm_calls d of None \<Rightarrow> [] | Some cs \<Rightarrow> map convertCall cs)\<rparr>
           | None \<Rightarrow>
               \<lparr>stdout = out,
                stderr = (if err \<noteq> [] then err else ''Parse error''),
                locals = [],
                rlmCalls = []\<rparr>))"

text \<open>
  \<open>executeCode\<close>: the child process (the script built from the code, run by \<open>python3\<close>)
  is a parameter of the model.
\<close>

definition LocalSandbox_executeCode ::
  "(string \<Rightarrow> Structured option) \<Rightarrow> (string \<Rightarrow> 's \<Rightarrow> execOutcome \<times> 's) \<Rightarrow> string \<Rightarrow> 's \<Rightarrow> REPLResult \<times> 's" where
  "LocalSandbox_executeCode jsonParse execSync src st =
     (case execSync src st of (oc, st') \<Rightarrow> (parseResult jsonParse oc, st'))"

section \<open>The observers (\<open>rlm-logger.ts\<close>, \<open>verbose.ts\<close>)\<close>

record RLMMetadata =
  md_rootModel :: string
  md_maxDepth :: int
  md_maxIterations :: nat
  md_sandboxType :: SandboxType
  md_sandboxKwargs :: "(string \<times> jsvalue) list"
  otherModels :: "string list option"

text \<open>The log file is the list of its lines: a metadata record, or a numbered iteration record.\<close>

datatype LogEntry = MetadataEntry RLMMetadata | IterationEntry nat RLMIteration

record RLMLogger =
  entries :: "LogEntry list"
  iterationCount :: nat
  metadataLogged :: bool

definition newRLMLogger :: RLMLogger where
  "newRLMLogger = \<lparr>entries = [], iterationCount = 0, metadataLogged = False\<rparr>"

definition logMetadata :: "RLMMetadata \<Rightarrow> RLMLogger \<Rightarrow> RLMLogger" where
  "logMetadata metadata lg =
     (if metadataLogged lg then lg
      else lg\<lparr>entries := entries lg @ [MetadataEntry metadata], metadataLogged := True\<rparr>)"

text \<open>The method \<open>log\<close>.\<close>

definition logIteration :: "RLMIteration \<Rightarrow> RLMLogger \<Rightarrow> RLMLogger" where
  "logIteration iteration lg =
     lg\<lparr>iterationCount := iterationCount lg + 1,
        entries := entries lg @ [IterationEntry (iterationCount lg + 1) iteration]\<rparr>"

text \<open>The printer, by what it is asked to print while it is enabled.\<close>

datatype PrintEvent =
    PrintMetadata RLMMetadata
  | PrintIteration RLMIteration nat
  | PrintFinalAnswer string
  | PrintSummary nat

record VerbosePrinter =
  enabled :: bool
  printed :: "PrintEvent list"

definition printEvent :: "PrintEvent \<Rightarrow> VerbosePrinter \<Rightarrow> VerbosePrinter" where
  "printEvent e vp = (if enabled vp then vp\<lparr>printed := printed vp @ [e]\<rparr> else vp)"

section \<open>The driver (\<open>rlm.ts\<close>)\<close>

text \<open>
  The state a completion works on: the state \<open>'w\<close> outside the process (the provider, the
  sandbox processes) and the handler of this completion.  An operation of a sandbox works on
  the outside state and on the usage tracker of the handler, which the router updates while
  it serves the hook calls of the executed code.
\<close>

record 'w Run =
  outside :: 'w
  handler :: LMHandler

type_synonym 'w sandbox = "(UsageTracker \<times> 'w) Sandbox"

definition onSandbox :: "(UsageTracker \<times> 'w \<Rightarrow> 'a \<times> UsageTracker \<times> 'w) \<Rightarrow> 'w Run \<Rightarrow> 'a \<times> 'w Run" where
  "onSandbox f run =
     (case f (tracker (handler run), outside run) of
        (x, t', w') \<Rightarrow> (x, run\<lparr>outside := w', handler := (handler run)\<lparr>tracker := t'\<rparr>\<rparr>))"

record SandboxOptions =
  opt_kwargs :: "(string \<times> jsvalue) list"
  contextPayload :: prompt
  opt_depth :: int

text \<open>
  The collaborators of the driver that are parameters of the model: the adapter call, the
  sandbox factory, and the two prompt builders of \<open>prompts.ts\<close> (the initial history is
  \<open>buildRlmSystemPrompt(systemPrompt, buildQueryMetadata(prompt))\<close>).
\<close>

record 'w Env =
  generateText :: "'w generateText"
  createSandbox :: "SandboxType \<Rightarrow> SandboxOptions \<Rightarrow> UsageTracker \<times> 'w \<Rightarrow> 'w sandbox \<times> UsageTracker \<times> 'w"
  buildInitialHistory :: "string \<Rightarrow> prompt \<Rightarrow> Message list"
  buildUserPrompt :: "string option \<Rightarrow> nat \<Rightarrow> nat \<Rightarrow> nat \<Rightarrow> Message"

record RLMConfig =
  cfg_model :: LanguageModel
  cfg_subModel :: "LanguageModel option"
  cfg_sandbox :: "SandboxType option"
  cfg_sandboxKwargs :: "(string \<times> jsvalue) list option"
  cfg_depth :: "int option"
  cfg_maxDepth :: "int option"
  cfg_maxIterations :: "nat option"
  cfg_customSystemPrompt :: "string option"
  cfg_logger :: "RLMLogger option"
  cfg_verbose :: "bool option"
  cfg_persistent :: "bool option"

record 'w RLM =
  model :: LanguageModel
  subModel :: "LanguageModel option"
  sandboxType :: SandboxType
  sandboxKwargs :: "(string \<times> jsvalue) list"
  depth :: int
  maxDepth :: int
  maxIterations :: nat
  systemPrompt :: string
  logger :: "RLMLogger option"
  verbose :: VerbosePrinter
  persistent :: bool
  persistentSandbox :: "'w sandbox option"

definition orElse :: "'a option \<Rightarrow> 'a \<Rightarrow> 'a" where
  "orElse x d = (case x of None \<Rightarrow> d | Some v \<Rightarrow> v)"

text \<open>
  The constructor; \<open>RLM_SYSTEM_PROMPT\<close> is its first argument here.  The metadata record
  is written when there is a logger or \<open>config.verbose\<close> is set.
\<close>

definition newRLM :: "string \<Rightarrow> RLMConfig \<Rightarrow> error + 'w RLM" where
  "newRLM RLM_SYSTEM_PROMPT config =
     (let this = \<lparr>model = cfg_model config,
                  subModel = cfg_subModel config,
                  sandboxType = orElse (cfg_sandbox config) Local,
                  sandboxKwargs = orElse (cfg_sandboxKwargs config) [],
                  depth = orElse (cfg_depth config) 0,
                  maxDepth = orElse (cfg_maxDepth config) 1,
                  maxIterations = orElse (cfg_maxIterations config) 30,
                  systemPrompt = orElse (cfg_customSystemPrompt config) RLM_SYSTEM_PROMPT,
                  logger = cfg_logger config,
                  verbose = \<lparr>enabled = orElse (cfg_verbose config) False, printed = []\<rparr>,
                  persistent = orElse (cfg_persistent config) False,
                  persistentSandbox = None\<rparr>
      in if persistent this \<and> sandboxType this \<notin> set [Local]
         then Inl (PersistentNotSupported (sandboxType this))
         else if logger this \<noteq> None \<or> orElse (cfg_verbose config) False
         then (let metadata = \<lparr>md_rootModel = modelId (model this),
                                md_maxDepth = maxDepth this,
                                md_maxIterations = maxIterations this,
                                md_sandboxType = sandboxType this,
                                md_sandboxKwargs = filterSensitiveKeys (sandboxKwargs this),
                                otherModels = map_option (\<lambda>sm. [modelId sm]) (subModel this)\<rparr>
               in Inr (this\<lparr>logger := map_option (logMetadata metadata) (logger this),
                             verbose := printEvent (PrintMetadata metadata) (verbose this)\<rparr>))
         else Inr this)"

text \<open>\<open>await\<close> of a result or of a promise of one.\<close>

definition awaitResult :: "'a maybePromise \<Rightarrow> 'a" where
  "awaitResult p = (case p of Now x \<Rightarrow> x | Later x \<Rightarrow> x)"

text \<open>\<open>lmHandler.completion(prompt)\<close> on the state of the completion.\<close>

definition directCompletion :: "'w Env \<Rightarrow> Message list \<Rightarrow> 'w Run \<Rightarrow> (error + string) \<times> 'w Run" where
  "directCompletion env msgs run =
     (case LMHandler_completion (generateText env) (PMessages msgs) None (handler run) (outside run) of
        (r, h', w') \<Rightarrow> (r, run\<lparr>outside := w', handler := h'\<rparr>))"

text \<open>The loop over the code blocks of \<open>completionTurn\<close>.\<close>

fun executeBlocks :: "'w sandbox \<Rightarrow> string list \<Rightarrow> 'w Run \<Rightarrow> CodeBlock list \<times> 'w Run" where
  "executeBlocks sandbox [] run = ([], run)"
| "executeBlocks sandbox (codeStr # rest) run =
     (case onSandbox (executeCode sandbox codeStr) run of
        (codeResult, run1) \<Rightarrow>
          (case executeBlocks sandbox rest run1 of
             (blocks, run2) \<Rightarrow> (\<lparr>code = codeStr, result = awaitResult codeResult\<rparr> # blocks, run2)))"

definition completionTurn ::
  "'w Env \<Rightarrow> Message list \<Rightarrow> 'w sandbox \<Rightarrow> 'w Run \<Rightarrow> (error + RLMIteration) \<times> 'w Run" where
  "completionTurn env msgs sandbox run =
     (case directCompletion env msgs run of
        (Inl e, run1) \<Rightarrow> (Inl e, run1)
      | (Inr resp, run1) \<Rightarrow>
          (case executeBlocks sandbox (findCodeBlocks resp) run1 of
             (blocks, run2) \<Rightarrow>
               (Inr \<lparr>it_prompt = msgs, it_response = resp, codeBlocks = blocks, finalAnswer = None\<rparr>, run2)))"

definition contextCountOf :: "'w sandbox \<Rightarrow> 'w Run \<Rightarrow> nat" where
  "contextCountOf sandbox run =
     (case persistence sandbox of
        Some ops \<Rightarrow> getContextCount ops (tracker (handler run), outside run)
      | None \<Rightarrow> 1)"

definition historyCountOf :: "'w sandbox \<Rightarrow> 'w Run \<Rightarrow> nat" where
  "historyCountOf sandbox run =
     (case persistence sandbox of
        Some ops \<Rightarrow> getHistoryCount ops (tracker (handler run), outside run)
      | None \<Rightarrow> 0)"

text \<open>
  The body of the loop up to the two observers: the turn, the search for a final answer, the
  log and the printer.
\<close>

definition runTurn ::
  "'w Env \<Rightarrow> 'w sandbox \<Rightarrow> string option \<Rightarrow> nat \<Rightarrow> Message list \<Rightarrow> 'w RLM \<Rightarrow> 'w Run
     \<Rightarrow> (error + RLMIteration) \<times> RLMLogger option \<times> VerbosePrinter \<times> 'w Run" where
  "runTurn env sandbox rootPrompt i messageHistory this run =
     (let currentPrompt = messageHistory
            @ [buildUserPrompt env rootPrompt i (contextCountOf sandbox run) (historyCountOf sandbox run)]
      in case completionTurn env currentPrompt sandbox run of
           (Inl e, run1) \<Rightarrow> (Inl e, logger this, verbose this, run1)
         | (Inr iteration0, run1) \<Rightarrow>
             (case onSandbox (findFinalAnswer (it_response iteration0) (Some sandbox)) run1 of
                (answer, run2) \<Rightarrow>
                  (let iteration = iteration0\<lparr>finalAnswer := answer\<rparr>
                   in (Inr iteration,
                       map_option (logIteration iteration) (logger this),
                       printEvent (PrintIteration iteration (i + 1)) (verbose this),
                       run2))))"

text \<open>The history is stored in a persistent sandbox.\<close>

definition storeHistory :: "'w sandbox \<Rightarrow> Message list \<Rightarrow> 'w RLM \<Rightarrow> 'w Run \<Rightarrow> 'w Run" where
  "storeHistory sandbox messageHistory this run =
     (case persistence sandbox of
        Some ops \<Rightarrow>
          (if persistent this then snd (onSandbox (\<lambda>st. ((), addHistory ops messageHistory st)) run)
           else run)
      | None \<Rightarrow> run)"

text \<open>The exit of the loop with a final answer, after \<open>count\<close> iterations.\<close>

definition finish ::
  "'w sandbox \<Rightarrow> prompt \<Rightarrow> Message list \<Rightarrow> nat \<Rightarrow> string \<Rightarrow> 'w RLM \<Rightarrow> 'w Run
     \<Rightarrow> (error + RLMChatCompletion) \<times> 'w RLM \<times> 'w Run" where
  "finish sandbox p messageHistory count answer this run =
     (let usage = getUsageSummary (tracker (handler run));
          this1 = this\<lparr>verbose := printEvent (PrintSummary count)
                                       (printEvent (PrintFinalAnswer answer) (verbose this))\<rparr>
      in (Inr \<lparr>rootModel = modelId (model this), prompt = p, response = answer, usageSummary = usage\<rparr>,
          this1,
          storeHistory sandbox messageHistory this run))"

definition finalRequest :: Message where
  "finalRequest =
     \<lparr>role = Assistant,
      content = ''Please provide a final answer to the user'' @ [CHR 0x27]
                  @ ''s question based on the information provided.''\<rparr>"

text \<open>\<open>defaultAnswer\<close>: one more call, logged when there is a logger.\<close>

definition defaultAnswer ::
  "'w Env \<Rightarrow> Message list \<Rightarrow> 'w RLM \<Rightarrow> 'w Run \<Rightarrow> (error + string) \<times> RLMLogger option \<times> 'w Run" where
  "defaultAnswer env messageHistory this run =
     (let currentPrompt = messageHistory @ [finalRequest]
      in case directCompletion env currentPrompt run of
           (Inl e, run1) \<Rightarrow> (Inl e, logger this, run1)
         | (Inr resp, run1) \<Rightarrow>
             (Inr resp,
              map_option (logIteration \<lparr>it_prompt = currentPrompt, it_response = resp,
                                         codeBlocks = [], finalAnswer = Some resp\<rparr>) (logger this),
              run1))"

text \<open>The loop \<open>for (let i = 0; i < this.maxIterations; i++)\<close> and what follows it.\<close>

function iterate ::
  "'w Env \<Rightarrow> 'w sandbox \<Rightarrow> prompt \<Rightarrow> string option \<Rightarrow> nat \<Rightarrow> Message list \<Rightarrow> 'w RLM \<Rightarrow> 'w Run
     \<Rightarrow> (error + RLMChatCompletion) \<times> 'w RLM \<times> 'w Run" where
  "iterate env sandbox p rootPrompt i messageHistory this run =
     (if i < maxIterations this then
        (case runTurn env sandbox rootPrompt i messageHistory this run of
           (Inl e, lg, vp, run1) \<Rightarrow> (Inl e, this\<lparr>logger := lg, verbose := vp\<rparr>, run1)
         | (Inr iteration, lg, vp, run1) \<Rightarrow>
             (case finalAnswer iteration of
                Some answer \<Rightarrow>
                  finish sandbox p messageHistory (i + 1) answer (this\<lparr>logger := lg, verbose := vp\<rparr>) run1
              | None \<Rightarrow>
                  iterate env sandbox p rootPrompt (i + 1) (messageHistory @ formatIteration iteration)
                    (this\<lparr>logger := lg, verbose := vp\<rparr>) run1))
      else
        (case defaultAnswer env messageHistory this run of
           (Inl e, lg, run1) \<Rightarrow> (Inl e, this\<lparr>logger := lg\<rparr>, run1)
         | (Inr answer, lg, run1) \<Rightarrow>
             finish sandbox p messageHistory (maxIterations this) answer (this\<lparr>logger := lg\<rparr>) run1))"
  by pat_completeness auto
termination
  by (relation "measure (\<lambda>(env, sandbox, p, rootPrompt, i, messageHistory, this, run). maxIterations this - i)")
     auto

declare iterate.simps [simp del]

text \<open>\<open>JSON.stringify\<close> of a list of messages.\<close>

definition jsonMessage :: "Message \<Rightarrow> string" where
  "jsonMessage m =
     ''{'' @ jsonString ''role'' @ '':'' @ jsonString (roleName (role m)) @ '',''
       @ jsonString ''content'' @ '':'' @ jsonString (content m) @ ''}''"

definition payloadText :: "prompt \<Rightarrow> string" where
  "payloadText p =
     (case p of
        PText s \<Rightarrow> s
      | PMessages ms \<Rightarrow> ''['' @ join '','' (map jsonMessage ms) @ '']''
      | PObject json \<Rightarrow> json)"

text \<open>\<open>fallbackAnswer\<close>: at the maximal depth, one call of the root model and no handler.\<close>

definition fallbackAnswer :: "'w Env \<Rightarrow> prompt \<Rightarrow> 'w RLM \<Rightarrow> 'w \<Rightarrow> (error + RLMChatCompletion) \<times> 'w" where
  "fallbackAnswer env message this w =
     (case generateText env (model this) [\<lparr>role = User, content = payloadText message\<rparr>] w of
        (Inl e, w') \<Rightarrow> (Inl e, w')
      | (Inr res, w') \<Rightarrow>
          (Inr \<lparr>rootModel = modelId (model this), prompt = message, response = gen_text res,
                usageSummary = [(modelId (model this),
                                 \<lparr>totalCalls = 1, totalInputTokens = orZero (promptTokens res),
                                  totalOutputTokens = orZero (completionTokens res)\<rparr>)]\<rparr>,
           w'))"

text \<open>The sandbox of a completion: the persistent one when it is held, or a new one.\<close>

definition acquireSandbox ::
  "'w Env \<Rightarrow> prompt \<Rightarrow> 'w RLM \<Rightarrow> 'w Run \<Rightarrow> 'w sandbox \<times> 'w RLM \<times> 'w Run" where
  "acquireSandbox env p this run =
     (case (if persistent this then persistentSandbox this else None) of
        Some sb \<Rightarrow>
          (sb, this,
           (case persistence sb of
              Some ops \<Rightarrow> snd (onSandbox (\<lambda>st. ((), addContext ops p (updateHandlerAddress ops st))) run)
            | None \<Rightarrow> run))
      | None \<Rightarrow>
          (case onSandbox (createSandbox env (sandboxType this)
                             \<lparr>opt_kwargs = sandboxKwargs this, contextPayload = p, opt_depth = depth this + 1\<rparr>) run of
             (sb, run1) \<Rightarrow>
               (sb,
                (if persistent this \<and> supportsPersistence sb then this\<lparr>persistentSandbox := Some sb\<rparr> else this),
                run1)))"

text \<open>
  \<open>completion\<close>.  The handler lives for one call; the result keeps, for the statements
  about the call, the outside state at its end and the handler it used, if it made one.
\<close>

definition completion ::
  "'w Env \<Rightarrow> prompt \<Rightarrow> string option \<Rightarrow> 'w RLM \<Rightarrow> 'w
     \<Rightarrow> (error + RLMChatCompletion) \<times> 'w RLM \<times> 'w \<times> LMHandler option" where
  "completion env p rootPrompt this w =
     (if depth this \<ge> maxDepth this
      then (case fallbackAnswer env p this w of (r, w') \<Rightarrow> (r, this, w', None))
      else
        (let lmHandler0 = newLMHandler (model this) (subModel this);
             lmHandler = (case subModel this of
                            Some sm \<Rightarrow> registerModel (modelId sm) sm lmHandler0
                          | None \<Rightarrow> lmHandler0)
         in case acquireSandbox env p this \<lparr>outside = w, handler = lmHandler\<rparr> of
              (sandbox, this1, run1) \<Rightarrow>
                (case iterate env sandbox p rootPrompt 0
                        (buildInitialHistory env (systemPrompt this1) p) this1 run1 of
                   (r, this2, run2) \<Rightarrow>
                     (let run3 = (if persistent this2 then run2
                                  else snd (onSandbox (\<lambda>st. ((), cleanup sandbox st)) run2))
                      in (r, this2, outside run3, Some (handler run3))))))"

section \<open>Definitions for the statements\<close>

text \<open>\<open>getLastUsage\<close> of the handler hands the question to its tracker.\<close>

definition LMHandler_getLastUsage :: "LMHandler \<Rightarrow> ModelUsageSummary" where
  "LMHandler_getLastUsage h = getLastUsage (tracker h)"

text \<open>
  The routing rule in the words of the specification: a supplied name that matches a
  registered model wins; otherwise depth 1 and a sub-model give the sub-model; otherwise the
  default model.  A supplied name is a string that is not empty.
\<close>

definition modelOfRequest :: "LMHandler \<Rightarrow> HookRequest \<Rightarrow> LanguageModel" where
  "modelOfRequest h data =
     (case (case rq_model data of
              None \<Rightarrow> None
            | Some n \<Rightarrow> if n \<noteq> [] then map_of (models h) n else None) of
        Some registered \<Rightarrow> registered
      | None \<Rightarrow>
          (if rq_depth data = Some 1 \<and> h_subModel h \<noteq> None then the (h_subModel h)
           else defaultModel h))"


text \<open>A stand-in for \<open>JSON.parse\<close> on a line that is not JSON: it throws.\<close>

definition rejectLine :: "string \<Rightarrow> Structured option" where
  "rejectLine line = None"

text \<open>A response without a marker: neither pattern of \<open>findFinalAnswer\<close> matches it.\<close>

definition noMarker :: "string \<Rightarrow> bool" where
  "noMarker s = (search finalVarPattern None s = None \<and> search finalPattern None s = None)"

text \<open>An adapter that never throws and never emits a marker.\<close>

definition neverMarks :: "'w generateText \<Rightarrow> bool" where
  "neverMarks gen =
     (\<forall>m msgs w. case fst (gen m msgs w) of Inl e \<Rightarrow> False | Inr res \<Rightarrow> noMarker (gen_text res))"

fun isIterationEntry :: "LogEntry \<Rightarrow> bool" where
  "isIterationEntry (IterationEntry n it) = True"
| "isIterationEntry (MetadataEntry md) = False"

text \<open>
  The second log is the first one with iteration records added at its end, and with no
  metadata record written.
\<close>

definition appendsIterations :: "RLMLogger option \<Rightarrow> RLMLogger option \<Rightarrow> bool" where
  "appendsIterations a b =
     (case a of
        None \<Rightarrow> b = None
      | Some la \<Rightarrow>
          (case b of
             None \<Rightarrow> False
           | Some lb \<Rightarrow>
               metadataLogged lb = metadataLogged la
               \<and> (\<exists>es. entries lb = entries la @ es \<and> list_all isIterationEntry es)))"

fun isPrintMetadata :: "PrintEvent \<Rightarrow> bool" where
  "isPrintMetadata (PrintMetadata md) = True"
| "isPrintMetadata e = False"

text \<open>The second printer is the first one after more prints, none of them of metadata.\<close>

definition printsNoMetadata :: "VerbosePrinter \<Rightarrow> VerbosePrinter \<Rightarrow> bool" where
  "printsNoMetadata a b =
     (enabled b = enabled a
      \<and> (\<exists>es. printed b = printed a @ es \<and> list_all (\<lambda>e. \<not> isPrintMetadata e) es))"

text \<open>What every step of a completion keeps, between the states before and after it.\<close>

definition keeps :: "'w RLM \<Rightarrow> 'w Run \<Rightarrow> 'w RLM \<Rightarrow> 'w Run \<Rightarrow> bool" where
  "keeps this run this' run' =
     (appendsIterations (logger this) (logger this')
      \<and> printsNoMetadata (verbose this) (verbose this')
      \<and> maxIterations this' = maxIterations this
      \<and> persistent this' = persistent this
      \<and> defaultModel (handler run') = defaultModel (handler run)
      \<and> (\<exists>cs. adapterCalls (handler run') = adapterCalls (handler run) @ cs
                \<and> list_all (\<lambda>call. fst call = defaultModel (handler run)) cs))"

text \<open>The record that \<open>defaultAnswer\<close> logs, for the history and the answer it got.\<close>

definition epilogueRecord :: "Message list \<Rightarrow> string \<Rightarrow> RLMIteration" where
  "epilogueRecord messageHistory resp =
     \<lparr>it_prompt = messageHistory @ [finalRequest], it_response = resp,
      codeBlocks = [], finalAnswer = Some resp\<rparr>"

text \<open>The iterations the printer is asked to print for the turns after turn \<open>i\<close>.\<close>

fun printIterations :: "nat \<Rightarrow> RLMIteration list \<Rightarrow> PrintEvent list" where
  "printIterations i [] = []"
| "printIterations i (it # its) = PrintIteration it (i + 1) # printIterations (i + 1) its"

text \<open>The iteration records of a log, in order.\<close>

fun iterationRecords :: "LogEntry list \<Rightarrow> RLMIteration list" where
  "iterationRecords [] = []"
| "iterationRecords (IterationEntry n it # es) = it # iterationRecords es"
| "iterationRecords (MetadataEntry md # es) = iterationRecords es"

fun metadataRecords :: "LogEntry list \<Rightarrow> RLMMetadata list" where
  "metadataRecords [] = []"
| "metadataRecords (IterationEntry n it # es) = metadataRecords es"
| "metadataRecords (MetadataEntry md # es) = md # metadataRecords es"

text \<open>
  A small instance for the closed statements: an adapter that always answers \<open>hello\<close>,
  a sandbox whose executions print nothing, prompt builders that give one message, and a
  driver built with a logger and a budget of one iteration.
\<close>

definition helloGen :: "unit generateText" where
  "helloGen m msgs w = (Inr \<lparr>gen_text = ''hello'', promptTokens = None, completionTokens = None\<rparr>, w)"

definition idleSandbox :: "unit sandbox" where
  "idleSandbox =
     \<lparr>executeCode = (\<lambda>src st. (Now \<lparr>stdout = [], stderr = [], locals = [], rlmCalls = []\<rparr>, st)),
      cleanup = (\<lambda>st. st),
      persistence = None\<rparr>"

definition helloEnv :: "unit Env" where
  "helloEnv =
     \<lparr>generateText = helloGen,
      createSandbox = (\<lambda>ty opts st. (idleSandbox, st)),
      buildInitialHistory = (\<lambda>sp p. [\<lparr>role = System, content = sp\<rparr>]),
      buildUserPrompt = (\<lambda>rp i c h. \<lparr>role = User, content = ''next''\<rparr>)\<rparr>"

definition rootModel0 :: LanguageModel where
  "rootModel0 = \<lparr>modelId = ''root'', adapter = 0\<rparr>"

definition helloConfig :: RLMConfig where
  "helloConfig =
     \<lparr>cfg_model = rootModel0, cfg_subModel = None, cfg_sandbox = None, cfg_sandboxKwargs = None,
      cfg_depth = None, cfg_maxDepth = None, cfg_maxIterations = Some 1,
      cfg_customSystemPrompt = Some ''sys'', cfg_logger = Some newRLMLogger, cfg_verbose = None,
      cfg_persistent = None\<rparr>"

text \<open>The metadata record of a driver.\<close>

definition metadataOf :: "'w RLM \<Rightarrow> RLMMetadata" where
  "metadataOf this =
     \<lparr>md_rootModel = modelId (model this),
      md_maxDepth = maxDepth this,
      md_maxIterations = maxIterations this,
      md_sandboxType = sandboxType this,
      md_sandboxKwargs = filterSensitiveKeys (sandboxKwargs this),
      otherModels = map_option (\<lambda>sm. [modelId sm]) (subModel this)\<rparr>"

text \<open>The driver that the constructor builds from \<open>helloConfig\<close>.\<close>

definition helloRLM :: "unit RLM" where
  "helloRLM =
     \<lparr>model = rootModel0, subModel = None, sandboxType = Local, sandboxKwargs = [],
      depth = 0, maxDepth = 1, maxIterations = 1, systemPrompt = ''sys'',
      logger = Some \<lparr>entries = [MetadataEntry \<lparr>md_rootModel = ''root'', md_maxDepth = 1, md_maxIterations = 1,
                                    md_sandboxType = Local, md_sandboxKwargs = [], otherModels = None\<rparr>],
                      iterationCount = 0, metadataLogged = True\<rparr>,
      verbose = \<lparr>enabled = False, printed = []\<rparr>,
      persistent = False, persistentSandbox = None\<rparr>"

text \<open>The text of a message around the code, and the suffix of a clamped result.\<close>

definition messageFrame :: "string \<Rightarrow> string" where
  "messageFrame src =
     ''Code executed:'' @ [CHR 0x0A] @ ''```python'' @ [CHR 0x0A] @ src @ [CHR 0x0A]
       @ ''```'' @ [CHR 0x0A, CHR 0x0A] @ ''REPL output:'' @ [CHR 0x0A]"

definition elidedSuffix :: "nat \<Rightarrow> string" where
  "elidedSuffix n = ''... + ['' @ natToString n @ '' chars...]''"

text \<open>
  A block whose code printed 50000 characters, and blocks with a source of any length whose
  result renders to 20001 characters.
\<close>

definition bigBlock :: CodeBlock where
  "bigBlock =
     \<lparr>code = ''print(1)'',
      result = \<lparr>stdout = replicate 50000 (CHR ''x''), stderr = [], locals = [], rlmCalls = []\<rparr>\<rparr>"

definition longCodeBlock :: "nat \<Rightarrow> CodeBlock" where
  "longCodeBlock k =
     \<lparr>code = replicate k (CHR ''a''),
      result = \<lparr>stdout = replicate 20000 (CHR ''x''), stderr = [], locals = [], rlmCalls = []\<rparr>\<rparr>"

text \<open>The character before a position, after the text \<open>s\<close> from a place that \<open>prev\<close> precedes.\<close>

definition lastBefore :: "char option \<Rightarrow> string \<Rightarrow> char option" where
  "lastBefore prev s = (if s = [] then prev else Some (last s))"

text \<open>A response with both markers, each at the start of a line.\<close>

definition bothMarkers :: string where
  "bothMarkers = ''FINAL_VAR(x)'' @ [CHR 0x0A] @ ''FINAL(y)''"

text \<open>
  A text with fenced blocks, in the words of the specification: each block is some text
  before it that holds no opening fence, the opening fence \<open>```repl\<close>, whitespace, a
  newline, the content, a newline and the closing fence; the content holds no newline
  followed by a closing fence, and holds a character that is not whitespace.
\<close>

definition opener :: string where
  "opener = ''```repl''"

definition closer :: string where
  "closer = CHR 0x0A # ''```''"

definition fence :: "string \<Rightarrow> string \<Rightarrow> string" where
  "fence ws body = opener @ ws @ [CHR 0x0A] @ body @ closer"

fun document :: "(string \<times> string \<times> string) list \<Rightarrow> string \<Rightarrow> string" where
  "document [] tail = tail"
| "document ((noise, ws, body) # blocks) tail = noise @ fence ws body @ document blocks tail"

definition wellFormed :: "string \<times> string \<times> string \<Rightarrow> bool" where
  "wellFormed b =
     (case b of (noise, ws, body) \<Rightarrow>
        \<not> includes_str noise opener \<and> list_all isSpace ws
        \<and> \<not> includes_str body closer \<and> \<not> list_all isSpace body)"

text \<open>No closing fence starts inside \<open>b\<close> when \<open>s\<close> follows it.\<close>

fun closerFree :: "string \<Rightarrow> string \<Rightarrow> bool" where
  "closerFree [] s = True"
| "closerFree (c # b) s = (\<not> startsWith (c # b @ s) closer \<and> closerFree b s)"

text \<open>What follows the last newline of a run of whitespace that holds one.\<close>

fun afterLF :: "string \<Rightarrow> string" where
  "afterLF [] = []"
| "afterLF (x # w) = (if CHR 0x0A \<in> set w then afterLF w else w)"

text \<open>An empty block, a newline, and a block with the content \<open>x\<close>.\<close>

definition emptyThenX :: string where
  "emptyThenX = fence [] [] @ [CHR 0x0A] @ fence [] ''x''"

section \<open>Properties\<close>

subsection \<open>The router\<close>

text \<open>
  C9.  Before the tracker has recorded any call, \<open>getLastUsage\<close> of the router answers
  with \<open>totalCalls = 1\<close> and no tokens: the same summary as after one call of any model
  that used no tokens.
\<close>

theorem getLastUsage_before_any_call:
  "LMHandler_getLastUsage (newLMHandler dm sm) = \<lparr>totalCalls = 1, totalInputTokens = 0, totalOutputTokens = 0\<rparr>
   \<and> LMHandler_getLastUsage (newLMHandler dm sm) = getLastUsage (track name 0 0 t)"
  by (simp add: LMHandler_getLastUsage_def newLMHandler_def registerModel_def getLastUsage_def
      newUsageTracker_def track_def)

text \<open>
  C5.  For every request to the hook \<open>/llm_query\<close>, the adapter that \<open>handleSingle\<close>
  calls, and whose text it answers with, is the model of the routing rule: the registered
  model of a supplied name, else the sub-model at depth 1 when there is one, else the
  default model.
\<close>

theorem handleSingle_selects_model:
  "adapterCalls (fst (snd (handleSingle gen data h w)))
     = adapterCalls h @ [(modelOfRequest h data, normalisePrompt (rq_prompt data))]
   \<and> map_sum id hr_response (fst (handleSingle gen data h w))
     = map_sum id gen_text (fst (gen (modelOfRequest h data) (normalisePrompt (rq_prompt data)) w))"
  by (auto simp: handleSingle_def modelOfRequest_def getModel_def Let_def
      split: option.splits prod.splits sum.splits)

subsection \<open>Parsing: the code blocks\<close>

lemma startsWith_Cons: "startsWith (c # cs) (a # l) = (c = a \<and> startsWith cs l)"
  by (auto simp: startsWith_def)

lemma startsWith_Nil: "startsWith s [] = True" "startsWith [] (a # l) = False"
  by (simp_all add: startsWith_def)

lemma lit_fails: "\<not> startsWith s l \<Longrightarrow> rmatch (lit l @ r) prev rec acc s = None"
proof (induction l arbitrary: s prev acc)
  case Nil
  then show ?case by (simp add: startsWith_Nil)
next
  case (Cons a l)
  show ?case
  proof (cases s)
    case Nil
    then show ?thesis by (simp add: lit_def)
  next
    case (Cons c cs)
    with Cons.prems Cons.IH[of cs] show ?thesis
      by (auto simp: startsWith_Cons lit_def)
  qed
qed

lemma lit_matches': "rmatch (lit l @ r) prev False acc (l @ s) = rmatch r (lastBefore prev l) False acc s"
  by (induction l arbitrary: prev) (auto simp: lit_def lastBefore_def)

lemma opener_overlap:
  assumes "startsWith (b @ opener @ x) opener" and "b \<noteq> []"
  shows "startsWith b opener"
proof (cases "length b \<ge> 7")
  case True
  with assms show ?thesis by (simp add: startsWith_def opener_def)
next
  case False
  moreover from assms(2) have "length b > 0" by simp
  ultimately have "length b = 1 \<or> length b = 2 \<or> length b = 3 \<or> length b = 4 \<or> length b = 5 \<or> length b = 6"
    by arith
  with assms(1) show ?thesis
    by (auto simp: startsWith_def opener_def length_Suc_conv eval_nat_numeral)
qed

lemma closer_overlap:
  assumes "startsWith (b @ closer @ x) closer" and "b \<noteq> []"
  shows "startsWith b closer"
proof (cases "length b \<ge> 4")
  case True
  with assms show ?thesis by (simp add: startsWith_def closer_def)
next
  case False
  moreover from assms(2) have "length b > 0" by simp
  ultimately have "length b = 1 \<or> length b = 2 \<or> length b = 3"
    by arith
  with assms(1) show ?thesis
    by (auto simp: startsWith_def closer_def length_Suc_conv eval_nat_numeral)
qed


lemma codeBlockPattern_lit:
  "codeBlockPattern = lit opener @ [Star True isSpace, Chr ((=) (CHR 0x0A)), Open, Star False anyChar, Close] @ lit closer"
  by (simp add: codeBlockPattern_def opener_def closer_def)

lemma no_opener_no_match:
  "\<not> startsWith s opener \<Longrightarrow> rmatch codeBlockPattern prev False [] s = None"
  unfolding codeBlockPattern_lit by (rule lit_fails)

lemma search_without_opener:
  "\<not> includes_str s opener \<Longrightarrow> search codeBlockPattern prev s = None"
proof (induction s arbitrary: prev)
  case Nil
  have "\<not> startsWith [] opener" by (simp add: startsWith_def opener_def)
  then show ?case by (simp add: no_opener_no_match)
next
  case (Cons c s)
  then have "\<not> startsWith (c # s) opener" "\<not> includes_str s opener" by simp_all
  with Cons.IH show ?case by (simp add: no_opener_no_match)
qed

lemma search_skips_noise:
  "\<not> includes_str noise opener \<Longrightarrow>
   search codeBlockPattern prev (noise @ opener @ x) = search codeBlockPattern (lastBefore prev noise) (opener @ x)"
proof (induction noise arbitrary: prev)
  case Nil
  then show ?case by (simp add: lastBefore_def)
next
  case (Cons c noise)
  then have a: "\<not> startsWith (c # noise) opener" and b: "\<not> includes_str noise opener" by simp_all
  from a opener_overlap[of "c # noise" x] have "\<not> startsWith ((c # noise) @ opener @ x) opener" by blast
  then have "rmatch codeBlockPattern prev False [] (c # noise @ opener @ x) = None"
    by (simp add: no_opener_no_match)
  with Cons.IH[OF b, of "Some c"] show ?case by (simp add: lastBefore_def)
qed

lemma search_at_match:
  "s \<noteq> [] \<Longrightarrow> rmatch pat prev False [] s = Some m \<Longrightarrow> search pat prev s = Some m"
  by (cases s) auto

lemma close_lit:
  "rmatch (Close # lit closer) q True acc (closer @ rest) = Some (rev acc, Some (CHR 0x60), rest)"
  by (simp add: closer_def lit_def)

lemma close_lit_fails:
  "\<not> startsWith s closer \<Longrightarrow> rmatch (Close # lit closer) q True acc s = None"
  using lit_fails[of s closer "[]" q False acc] by simp

lemma lazy_body:
  "closerFree b (closer @ rest) \<Longrightarrow>
   rmatch (Star False anyChar # Close # lit closer) q True acc (b @ closer @ rest)
     = Some (rev acc @ b, Some (CHR 0x60), rest)"
proof (induction b arbitrary: q acc)
  case Nil
  have "rmatch (Star False anyChar # Close # lit closer) q True acc (closer @ rest)
        = Some (rev acc, Some (CHR 0x60), rest)"
    using close_lit[of q acc rest] by (simp add: closer_def)
  then show ?case by simp
next
  case (Cons c b)
  then have n: "\<not> startsWith (c # b @ closer @ rest) closer" and f: "closerFree b (closer @ rest)"
    by simp_all
  from close_lit_fails[OF n] Cons.IH[OF f, of "Some c" "c # acc"]
  show ?case by (simp add: anyChar_def)
qed

lemma closerFree_from_includes:
  "\<not> includes_str b closer \<Longrightarrow> closerFree b (closer @ rest)"
proof (induction b)
  case Nil
  then show ?case by simp
next
  case (Cons c b)
  then have a: "\<not> startsWith (c # b) closer" and i: "\<not> includes_str b closer" by simp_all
  from a closer_overlap[of "c # b" rest] have "\<not> startsWith (c # b @ closer @ rest) closer" by auto
  with Cons.IH[OF i] show ?case by simp
qed

lemma closerFree_suffix: "closerFree (a @ b) s \<Longrightarrow> closerFree b s"
  by (induction a) auto

lemma closerFree_no_LF:
  "CHR 0x0A \<notin> set w \<Longrightarrow> closerFree b s \<Longrightarrow> closerFree (w @ b) s"
  by (induction w) (auto simp: startsWith_def closer_def)


lemma greedy_then_newline:
  assumes sp: "list_all isSpace w"
    and core: "core \<noteq> []" "\<not> isSpace (hd core)"
    and free: "closerFree core (closer @ rest)"
  shows "rmatch (Star True isSpace # Chr ((=) (CHR 0x0A)) # Open # Star False anyChar # Close # lit closer)
           q False [] (w @ core @ closer @ rest)
         = (if CHR 0x0A \<in> set w then Some (afterLF w @ core, Some (CHR 0x60), rest) else None)"
  using sp
proof (induction w arbitrary: q)
  case Nil
  from core obtain y ys where c: "core = y # ys" and y: "\<not> isSpace y" by (cases core) auto
  from y have "y \<noteq> CHR 0x0A" by (auto simp: isSpace_def)
  with c y show ?case by simp
next
  case (Cons x w)
  then have x: "isSpace x" and w: "list_all isSpace w" by simp_all
  note IH = Cons.IH[OF w, of "Some x"]
  show ?case
  proof (cases "CHR 0x0A \<in> set w")
    case True
    with IH x show ?thesis by simp
  next
    case False
    note noLF = this
    show ?thesis
    proof (cases "x = CHR 0x0A")
      case True
      from closerFree_no_LF[OF noLF free]
      have "rmatch (Star False anyChar # Close # lit closer) (Some (CHR 0x0A)) True [] ((w @ core) @ closer @ rest)
            = Some (rev [] @ (w @ core), Some (CHR 0x60), rest)"
        by (rule lazy_body)
      with IH x noLF True show ?thesis by simp
    next
      case False
      with IH x noLF show ?thesis by simp
    qed
  qed
qed

lemma afterLF_spaces: "list_all isSpace w \<Longrightarrow> list_all isSpace (afterLF w)"
  by (induction w) auto

lemma trim_leading: "list_all isSpace a \<Longrightarrow> trim (a @ s) = trim s"
  by (induction a) (auto simp: trim_def trimStart_def)

lemma split_leading:
  "\<not> list_all isSpace body \<Longrightarrow>
   \<exists>sp core. body = sp @ core \<and> list_all isSpace sp \<and> core \<noteq> [] \<and> \<not> isSpace (hd core)"
proof (induction body)
  case Nil
  then show ?case by simp
next
  case (Cons c body)
  show ?case
  proof (cases "isSpace c")
    case True
    with Cons.prems have "\<not> list_all isSpace body" by simp
    from Cons.IH[OF this] obtain sp core where
      "body = sp @ core" "list_all isSpace sp" "core \<noteq> []" "\<not> isSpace (hd core)" by blast
    with True have "c # body = (c # sp) @ core \<and> list_all isSpace (c # sp) \<and> core \<noteq> [] \<and> \<not> isSpace (hd core)"
      by simp
    then show ?thesis by blast
  next
    case False
    then have "c # body = [] @ (c # body) \<and> list_all isSpace [] \<and> c # body \<noteq> [] \<and> \<not> isSpace (hd (c # body))"
      by simp
    then show ?thesis by blast
  qed
qed

lemma fence_matches:
  assumes ws: "list_all isSpace ws"
    and body: "\<not> includes_str body closer" "\<not> list_all isSpace body"
  shows "\<exists>cap. rmatch codeBlockPattern q False [] (fence ws body @ rest) = Some (cap, Some (CHR 0x60), rest)
               \<and> trim cap = trim body"
proof -
  from split_leading[OF body(2)] obtain sp core where
    b: "body = sp @ core" and sp: "list_all isSpace sp" and core: "core \<noteq> []" "\<not> isSpace (hd core)"
    by blast
  let ?w = "ws @ [CHR 0x0A] @ sp"
  have w: "list_all isSpace ?w" using ws sp by (simp add: isSpace_def)
  have free: "closerFree core (closer @ rest)"
    using closerFree_suffix[of sp core] closerFree_from_includes[OF body(1), of rest] b by simp
  have lf: "CHR 0x0A \<in> set ?w" by simp
  let ?R = "[Star True isSpace, Chr ((=) (CHR 0x0A)), Open, Star False anyChar, Close] @ lit closer"
  have "rmatch codeBlockPattern q False [] (opener @ (?w @ core @ closer @ rest))
        = rmatch ?R (lastBefore q opener) False [] (?w @ core @ closer @ rest)"
    unfolding codeBlockPattern_lit by (rule lit_matches')
  also have "\<dots> = Some (afterLF ?w @ core, Some (CHR 0x60), rest)"
    using greedy_then_newline[OF w core free, of "lastBefore q opener"] lf by simp
  finally have m: "rmatch codeBlockPattern q False [] (fence ws body @ rest)
                   = Some (afterLF ?w @ core, Some (CHR 0x60), rest)"
    by (simp add: fence_def b)
  have "trim (afterLF ?w @ core) = trim core"
    using afterLF_spaces[OF w] by (rule trim_leading)
  also have "\<dots> = trim body"
    using trim_leading[OF sp, of core] b by simp
  finally show ?thesis using m by blast
qed

lemma findCodeBlocksFrom_document:
  "list_all wellFormed blocks \<Longrightarrow> \<not> includes_str tail opener \<Longrightarrow>
   findCodeBlocksFrom prev (document blocks tail) = map (\<lambda>(noise, ws, body). trim body) blocks"
proof (induction blocks arbitrary: prev)
  case Nil
  then show ?case by (simp add: findCodeBlocksFrom.simps search_without_opener)
next
  case (Cons blk blocks)
  obtain noise ws body where blk: "blk = (noise, ws, body)" by (cases blk)
  from Cons.prems have wfb: "wellFormed blk" and rest: "list_all wellFormed blocks"
    by simp_all
  from wfb blk have wf: "\<not> includes_str noise opener" "list_all isSpace ws"
      "\<not> includes_str body closer" "\<not> list_all isSpace body"
    by (simp_all add: wellFormed_def)
  let ?rest = "document blocks tail"
  from fence_matches[OF wf(2) wf(3) wf(4), of "lastBefore prev noise" ?rest]
  obtain cap where m: "rmatch codeBlockPattern (lastBefore prev noise) False [] (fence ws body @ ?rest)
                        = Some (cap, Some (CHR 0x60), ?rest)"
    and t: "trim cap = trim body" by blast
  have ne: "fence ws body @ ?rest \<noteq> []" by (simp add: fence_def opener_def)
  have "search codeBlockPattern prev (noise @ opener @ (ws @ [CHR 0x0A] @ body @ closer @ ?rest))
        = search codeBlockPattern (lastBefore prev noise) (opener @ (ws @ [CHR 0x0A] @ body @ closer @ ?rest))"
    using wf(1) by (rule search_skips_noise)
  then have "search codeBlockPattern prev (document (blk # blocks) tail)
        = search codeBlockPattern (lastBefore prev noise) (fence ws body @ ?rest)"
    by (simp add: blk fence_def)
  also have "\<dots> = Some (cap, Some (CHR 0x60), ?rest)"
    using ne m by (rule search_at_match)
  finally have s: "search codeBlockPattern prev (document (blk # blocks) tail) = Some (cap, Some (CHR 0x60), ?rest)" .
  have "findCodeBlocksFrom prev (document (blk # blocks) tail)
        = trim cap # findCodeBlocksFrom (Some (CHR 0x60)) ?rest"
    by (subst findCodeBlocksFrom.simps) (simp add: s)
  with Cons.IH[OF rest Cons.prems(2), of "Some (CHR 0x60)"] t blk show ?case by simp
qed

text \<open>
  For a text of well-formed blocks whose contents are not blank, \<open>findCodeBlocks\<close> gives
  the trimmed contents, one for each block and in their order.
\<close>

theorem findCodeBlocks_well_formed:
  assumes "list_all wellFormed blocks" and "\<not> includes_str tail opener"
  shows "findCodeBlocks (document blocks tail) = map (\<lambda>(noise, ws, body). trim body) blocks"
  using assms by (simp add: findCodeBlocks_def findCodeBlocksFrom_document)

text \<open>
  C6.  The claim fails where a block has a blank content and a closing fence comes later in
  the text: the greedy \<open>\s*\<close> of the pattern takes the newline of the empty block, and
  the match runs on to the next closing fence.  For an empty block followed by a block with
  the content \<open>x\<close> the answer is the one string \<open>```\<close>, not the two contents.
\<close>

theorem findCodeBlocks_merges_empty_block:
  "emptyThenX = ''```repl'' @ [CHR 0x0A, CHR 0x0A] @ ''```'' @ [CHR 0x0A] @ ''```repl'' @ [CHR 0x0A] @ ''x'' @ [CHR 0x0A] @ ''```''
   \<and> findCodeBlocks emptyThenX = [''```'']"
  by code_simp

subsection \<open>Parsing: the clamp of a rendered result\<close>

lemma blockMessage_content:
  "content (blockMessage n cb) = messageFrame (code cb) @ clampResult n (formatExecutionResult (result cb))"
  by (simp add: blockMessage_def messageFrame_def)

lemma messageFrame_length: "length (messageFrame src) = 44 + length src"
  by (simp add: messageFrame_def)

lemma clampResult_long:
  "length r > n \<Longrightarrow> clampResult n r = take n r @ elidedSuffix (length r - n)"
  by (simp add: clampResult_def elidedSuffix_def)

lemma elidedSuffix_length: "length (elidedSuffix k) = 17 + length (natToString k)"
  by (simp add: elidedSuffix_def)

lemma blockMessage_long_length:
  assumes "length (formatExecutionResult (result cb)) > n"
  shows "length (content (blockMessage n cb))
         = 44 + length (code cb) + n + 17
           + length (natToString (length (formatExecutionResult (result cb)) - n))"
proof -
  from assms have t: "length (take n (formatExecutionResult (result cb))) = n" by simp
  show ?thesis
    using t clampResult_long[OF assms]
    by (simp add: blockMessage_content messageFrame_length elidedSuffix_length)
qed

text \<open>
  C2, as amended.  For every executed code block whose rendered result is longer than
  20000 characters, the message of role \<open>user\<close> that \<open>formatIteration\<close> gives for it
  is the frame with the code, the first 20000 characters of the rendering, and a suffix that
  states the number of characters left out; its length is 44 + 20000 + 17 plus the length of
  the code and the number of digits of that number.
\<close>

theorem formatIteration_clamps_result:
  assumes k: "k < length (codeBlocks iteration)"
    and long: "length (formatExecutionResult (result (codeBlocks iteration ! k))) > 20000"
  shows "role (formatIteration iteration ! Suc k) = User
     \<and> content (formatIteration iteration ! Suc k)
         = messageFrame (code (codeBlocks iteration ! k))
           @ take 20000 (formatExecutionResult (result (codeBlocks iteration ! k)))
           @ elidedSuffix (length (formatExecutionResult (result (codeBlocks iteration ! k))) - 20000)
     \<and> length (content (formatIteration iteration ! Suc k))
         = 44 + length (code (codeBlocks iteration ! k)) + 20000 + 17
           + length (natToString (length (formatExecutionResult (result (codeBlocks iteration ! k))) - 20000))"
proof -
  let ?cb = "codeBlocks iteration ! k"
  have m: "formatIteration iteration ! Suc k = blockMessage 20000 ?cb"
    using k by (simp add: formatIteration_def formatIterationWith_def)
  have r: "role (blockMessage 20000 ?cb) = User" by (simp add: blockMessage_def)
  from long have t: "length (take 20000 (formatExecutionResult (result ?cb))) = 20000" by simp
  show ?thesis
    unfolding m
    using r t clampResult_long[OF long]
    by (simp add: blockMessage_content messageFrame_length elidedSuffix_length)
qed

lemma render_bigBlock: "formatExecutionResult (result bigBlock) = CHR 0x0A # replicate 50000 (CHR ''x'')"
  by (simp add: formatExecutionResult_def bigBlock_def importantVars_def Let_def)

lemma natToString_30001: "natToString 30001 = ''30001''"
  by (simp add: natToString.simps digitChar_def)

theorem formatIteration_clamps_result_witness:
  "0 < length (codeBlocks \<lparr>it_prompt = [], it_response = ''run'', codeBlocks = [bigBlock], finalAnswer = None\<rparr>)
   \<and> length (formatExecutionResult (result (codeBlocks \<lparr>it_prompt = [], it_response = ''run'',
          codeBlocks = [bigBlock], finalAnswer = None\<rparr> ! 0))) > 20000
   \<and> content (formatIteration \<lparr>it_prompt = [], it_response = ''run'', codeBlocks = [bigBlock], finalAnswer = None\<rparr> ! 1)
       = messageFrame ''print(1)'' @ (CHR 0x0A # replicate 19999 (CHR ''x'')) @ ''... + [30001 chars...]''
   \<and> length (content (formatIteration \<lparr>it_prompt = [], it_response = ''run'', codeBlocks = [bigBlock],
          finalAnswer = None\<rparr> ! 1)) = 20074"
proof -
  let ?it = "\<lparr>it_prompt = [], it_response = ''run'', codeBlocks = [bigBlock], finalAnswer = None\<rparr>"
  have k: "0 < length (codeBlocks ?it)" by simp
  have long: "length (formatExecutionResult (result (codeBlocks ?it ! 0))) > 20000"
    by (simp add: render_bigBlock)
  have c: "code bigBlock = ''print(1)''" by (simp add: bigBlock_def)
  have tk: "take 20000 (CHR 0x0A # replicate 50000 (CHR ''x'')) = CHR 0x0A # replicate 19999 (CHR ''x'')"
    by (simp add: take_Cons')
  from formatIteration_clamps_result[OF k long] k long
  show ?thesis
    by (simp add: render_bigBlock natToString_30001 elidedSuffix_def c tk messageFrame_length)
qed

text \<open>
  The claim as written fails: the message holds the code, which is not cut, so no constant
  bounds its length beyond 20000.
\<close>

lemma render_longCodeBlock:
  "formatExecutionResult (result (longCodeBlock k)) = CHR 0x0A # replicate 20000 (CHR ''x'')"
  by (simp add: formatExecutionResult_def longCodeBlock_def importantVars_def Let_def)

theorem message_length_counterexample:
  "\<not> (\<exists>K. \<forall>cb. length (formatExecutionResult (result cb)) > 20000
          \<longrightarrow> length (content (blockMessage 20000 cb)) \<le> 20000 + K)"
proof
  assume "\<exists>K. \<forall>cb. length (formatExecutionResult (result cb)) > 20000
          \<longrightarrow> length (content (blockMessage 20000 cb)) \<le> 20000 + K"
  then obtain K where b: "\<forall>cb. length (formatExecutionResult (result cb)) > 20000
          \<longrightarrow> length (content (blockMessage 20000 cb)) \<le> 20000 + K" ..
  have long: "length (formatExecutionResult (result (longCodeBlock K))) > 20000"
    by (simp add: render_longCodeBlock)
  with b have le: "length (content (blockMessage 20000 (longCodeBlock K))) \<le> 20000 + K" by blast
  have "length (code (longCodeBlock K)) = K" by (simp add: longCodeBlock_def)
  with blockMessage_long_length[OF long] le show False by simp
qed

subsection \<open>Parsing: the markers\<close>

lemma lastBefore_Cons: "lastBefore prev (c # s) = lastBefore (Some c) s"
  by (simp add: lastBefore_def)

lemma search_finds:
  "rmatch pat (lastBefore prev pre) False [] s \<noteq> None \<Longrightarrow> search pat prev (pre @ s) \<noteq> None"
proof (induction pre arbitrary: prev)
  case Nil
  then show ?case by (cases s) (auto simp: lastBefore_def split: option.splits)
next
  case (Cons c pre)
  from Cons.prems have "rmatch pat (lastBefore (Some c) pre) False [] s \<noteq> None"
    by (simp add: lastBefore_Cons)
  from Cons.IH[OF this] show ?case by (auto split: option.splits)
qed

lemma greedy_star_skips:
  "list_all p ws \<Longrightarrow> rmatch r (lastBefore prev ws) False acc s \<noteq> None
   \<Longrightarrow> rmatch (Star True p # r) prev False acc (ws @ s) \<noteq> None"
proof (induction ws arbitrary: prev)
  case Nil
  then show ?case by (cases s) (auto simp: lastBefore_def split: option.splits)
next
  case (Cons w ws)
  from Cons.prems have "rmatch r (lastBefore (Some w) ws) False acc s \<noteq> None" "list_all p ws" "p w"
    by (simp_all add: lastBefore_Cons)
  with Cons.IH[of "Some w"] show ?case by (auto split: option.splits)
qed

lemma lazy_star_reaches:
  "list_all p arg \<Longrightarrow> rmatch r (lastBefore prev arg) True (rev arg @ acc) s \<noteq> None
   \<Longrightarrow> rmatch (Star False p # r) prev True acc (arg @ s) \<noteq> None"
proof (induction arg arbitrary: prev acc)
  case Nil
  then show ?case by (cases s) (auto simp: lastBefore_def split: option.splits)
next
  case (Cons a arg)
  from Cons.prems have "rmatch r (lastBefore (Some a) arg) True (rev arg @ a # acc) s \<noteq> None"
     "list_all p arg" "p a"
    by (simp_all add: lastBefore_Cons)
  with Cons.IH[of "Some a" "a # acc"] show ?case by (auto split: option.splits)
qed

lemma finalVarPattern_matches:
  assumes bol: "prev = None \<or> (\<exists>c. prev = Some c \<and> isLineTerminator c)"
    and ws: "list_all isSpace ws"
    and arg: "list_all dotChar arg"
  shows "rmatch finalVarPattern prev False [] (ws @ ''FINAL_VAR('' @ arg @ '')'' @ post) \<noteq> None"
proof -
  let ?tail = "[Open, Star False dotChar, Close, Chr ((=) (CHR '')''))]"
  have close: "rmatch [Close, Chr ((=) (CHR '')''))] q True a ('')'' @ post) \<noteq> None" for q a
    by simp
  have body: "rmatch ?tail q False [] (arg @ '')'' @ post) \<noteq> None" for q
    using lazy_star_reaches[OF arg, of "[Close, Chr ((=) (CHR '')''))]" q "[]" "'')'' @ post"] close
    by simp
  have "rmatch (lit ''FINAL_VAR('' @ ?tail) q False [] (''FINAL_VAR('' @ arg @ '')'' @ post) \<noteq> None" for q
    using body lit_matches'[of "''FINAL_VAR(''" ?tail q "[]" "arg @ '')'' @ post"]
    by simp
  then have "rmatch (Star True isSpace # lit ''FINAL_VAR('' @ ?tail) prev False []
               (ws @ ''FINAL_VAR('' @ arg @ '')'' @ post) \<noteq> None"
    using greedy_star_skips[OF ws] by blast
  with bol show ?thesis
    by (auto simp: finalVarPattern_def)
qed

text \<open>
  C7.  For every response with a line whose leading non-whitespace is \<open>FINAL_VAR(\<close>, an
  argument without line terminators and a closing parenthesis, the pattern of
  \<open>FINAL_VAR\<close> matches and \<open>findFinalAnswer\<close> is the branch of \<open>FINAL_VAR\<close> on what
  that pattern captured: the pattern of \<open>FINAL\<close> has no part in the answer, whether a
  line \<open>FINAL(...)\<close> is there or not.
\<close>

theorem findFinalAnswer_prefers_FINAL_VAR:
  assumes t: "text = pre @ ws @ ''FINAL_VAR('' @ arg @ '')'' @ post"
    and bol: "pre = [] \<or> isLineTerminator (last pre)"
    and ws: "list_all isSpace ws"
    and arg: "list_all dotChar arg"
  shows "\<exists>captured m. search finalVarPattern None text = Some (captured, m)
           \<and> findFinalAnswer text sandbox st = finalVarAnswer captured sandbox st"
proof -
  have "lastBefore None pre = None \<or> (\<exists>c. lastBefore None pre = Some c \<and> isLineTerminator c)"
    using bol by (auto simp: lastBefore_def)
  from finalVarPattern_matches[OF this ws arg, of post]
  have "search finalVarPattern None (pre @ ws @ ''FINAL_VAR('' @ arg @ '')'' @ post) \<noteq> None"
    by (rule search_finds)
  then obtain captured m where "search finalVarPattern None text = Some (captured, m)"
    using t by auto
  then show ?thesis by (simp add: findFinalAnswer_def)
qed

lemma bothMarkers_final: "search finalPattern None bothMarkers = Some (''y'', Some (CHR '')''), [])"
  by code_simp

lemma bothMarkers_var: "search finalVarPattern None bothMarkers = Some (''x'', Some (CHR '')''), [CHR 0x0A] @ ''FINAL(y)'')"
  by code_simp

theorem findFinalAnswer_prefers_FINAL_VAR_witness:
  "bothMarkers = [] @ [] @ ''FINAL_VAR('' @ ''x'' @ '')'' @ ([CHR 0x0A] @ ''FINAL(y)'')
   \<and> list_all isSpace [] \<and> list_all dotChar ''x''
   \<and> search finalPattern None bothMarkers = Some (''y'', Some (CHR '')''), [])
   \<and> findFinalAnswer bothMarkers (None :: unit Sandbox option) () = finalVarAnswer ''x'' None ()
   \<and> findFinalAnswer bothMarkers (None :: unit Sandbox option) () = (None, ())"
proof -
  have t: "bothMarkers = [] @ [] @ ''FINAL_VAR('' @ ''x'' @ '')'' @ ([CHR 0x0A] @ ''FINAL(y)'')"
    by (simp add: bothMarkers_def)
  have d: "list_all dotChar ''x''" by (simp add: dotChar_def isLineTerminator_def)
  from findFinalAnswer_prefers_FINAL_VAR[OF t _ _ d, of "None :: unit Sandbox option" "()"]
  show ?thesis
    using t d by (auto simp: bothMarkers_final bothMarkers_var finalVarAnswer_def)
qed

subsection \<open>The sensitive keys\<close>





subsection \<open>The local sandbox\<close>

text \<open>
  C3, as amended.  When \<open>JSON.parse\<close> throws on the last line of the child's standard
  output, the result has the whole raw output as its \<open>stdout\<close>, no locals and no call
  records, and its \<open>stderr\<close> is the standard error of the child when that is not empty, and
  the text \<open>Parse error\<close> otherwise.
\<close>

theorem parseResult_parse_failure:
  "jsonParse (lastLine (fst (childStreams oc))) = None \<Longrightarrow>
   parseResult jsonParse oc =
     \<lparr>stdout = fst (childStreams oc),
      stderr = (if snd (childStreams oc) \<noteq> [] then snd (childStreams oc) else ''Parse error''),
      locals = [], rlmCalls = []\<rparr>"
  by (auto simp: parseResult_def split: prod.splits)
theorem parseResult_parse_failure_witness:
  "rejectLine (lastLine (fst (childStreams (Exited ''oops'')))) = None
   \<and> parseResult rejectLine (Exited ''oops'')
       = \<lparr>stdout = ''oops'', stderr = ''Parse error'', locals = [], rlmCalls = []\<rparr>"
  using parseResult_parse_failure[of rejectLine "Exited ''oops''"]
  by (simp add: rejectLine_def childStreams_def)

text \<open>
  The claim as written fails where the child has written to its standard error: the result
  carries that text alone, with no note of the parse error.
\<close>

theorem parseResult_no_note_counterexample:
  "rejectLine (lastLine (fst (childStreams (Failed (Some ''oops'') (Some ''boom''))))) = None
   \<and> stdout (parseResult rejectLine (Failed (Some ''oops'') (Some ''boom''))) = ''oops''
   \<and> stderr (parseResult rejectLine (Failed (Some ''oops'') (Some ''boom''))) = ''boom''
   \<and> \<not> includes_str (stderr (parseResult rejectLine (Failed (Some ''oops'') (Some ''boom'')))) ''Parse error''"
  by (simp add: rejectLine_def parseResult_def childStreams_def startsWith_def)

subsection \<open>The driver: what every completion keeps\<close>

lemma onSandbox_frame:
  "onSandbox f run = (x, run') \<Longrightarrow>
   adapterCalls (handler run') = adapterCalls (handler run)
   \<and> defaultModel (handler run') = defaultModel (handler run)"
  by (auto simp: onSandbox_def split: prod.splits)

lemma executeBlocks_frame:
  "executeBlocks sb strs run = (blocks, run') \<Longrightarrow>
   adapterCalls (handler run') = adapterCalls (handler run)
   \<and> defaultModel (handler run') = defaultModel (handler run)"
proof (induction strs arbitrary: run blocks run')
  case Nil
  then show ?case by simp
next
  case (Cons c strs)
  obtain r run1 where a: "onSandbox (executeCode sb c) run = (r, run1)"
    by (cases "onSandbox (executeCode sb c) run")
  obtain bs run2 where b: "executeBlocks sb strs run1 = (bs, run2)"
    by (cases "executeBlocks sb strs run1")
  from Cons.prems a b have "run' = run2" by simp
  with Cons.IH[OF b] onSandbox_frame[OF a] show ?case by simp
qed

lemma directCompletion_frame:
  "directCompletion env msgs run = (r, run') \<Longrightarrow>
   adapterCalls (handler run') = adapterCalls (handler run) @ [(defaultModel (handler run), msgs)]
   \<and> defaultModel (handler run') = defaultModel (handler run)"
  by (auto simp: directCompletion_def LMHandler_completion_def getModel_def normalisePrompt_def Let_def
      split: prod.splits sum.splits option.splits)
lemma appendsIterations_refl: "appendsIterations a a"
  by (auto simp: appendsIterations_def split: option.splits)

lemma appendsIterations_trans:
  "appendsIterations a b \<Longrightarrow> appendsIterations b c \<Longrightarrow> appendsIterations a c"
  by (auto simp: appendsIterations_def split: option.splits)

lemma appendsIterations_log: "appendsIterations a (map_option (logIteration it) a)"
  by (auto simp: appendsIterations_def logIteration_def split: option.splits)

lemma printsNoMetadata_refl: "printsNoMetadata a a"
  by (simp add: printsNoMetadata_def)

lemma printsNoMetadata_trans:
  "printsNoMetadata a b \<Longrightarrow> printsNoMetadata b c \<Longrightarrow> printsNoMetadata a c"
  by (auto simp: printsNoMetadata_def)

lemma printsNoMetadata_print:
  "\<not> isPrintMetadata e \<Longrightarrow> printsNoMetadata a (printEvent e a)"
  by (simp add: printsNoMetadata_def printEvent_def)

lemma keeps_refl: "keeps this run this run"
  by (simp add: keeps_def appendsIterations_refl printsNoMetadata_refl)

lemma keeps_trans:
  "keeps a ra b rb \<Longrightarrow> keeps b rb c rc \<Longrightarrow> keeps a ra c rc"
  unfolding keeps_def
  by (auto intro: appendsIterations_trans printsNoMetadata_trans)

lemma completionTurn_frame:
  "completionTurn env msgs sb run = (r, run') \<Longrightarrow>
   adapterCalls (handler run') = adapterCalls (handler run) @ [(defaultModel (handler run), msgs)]
   \<and> defaultModel (handler run') = defaultModel (handler run)"
proof -
  assume a: "completionTurn env msgs sb run = (r, run')"
  obtain x run1 where d: "directCompletion env msgs run = (x, run1)"
    by (cases "directCompletion env msgs run")
  show ?thesis
  proof (cases x)
    case (Inl e)
    with a d have "run' = run1" by (simp add: completionTurn_def)
    with directCompletion_frame[OF d] show ?thesis by simp
  next
    case (Inr resp)
    obtain blocks run2 where e: "executeBlocks sb (findCodeBlocks resp) run1 = (blocks, run2)"
      by (cases "executeBlocks sb (findCodeBlocks resp) run1")
    with a d Inr have "run' = run2" by (simp add: completionTurn_def)
    with directCompletion_frame[OF d] executeBlocks_frame[OF e] show ?thesis by simp
  qed
qed

lemma runTurn_keeps:
  "runTurn env sb rp i hist this run = (r, lg, vp, run') \<Longrightarrow>
   keeps this run (this\<lparr>logger := lg, verbose := vp\<rparr>) run'"
proof -
  assume a: "runTurn env sb rp i hist this run = (r, lg, vp, run')"
  let ?cp = "hist @ [buildUserPrompt env rp i (contextCountOf sb run) (historyCountOf sb run)]"
  obtain x run1 where t: "completionTurn env ?cp sb run = (x, run1)"
    by (cases "completionTurn env ?cp sb run")
  note f = completionTurn_frame[OF t]
  show ?thesis
  proof (cases x)
    case (Inl e)
    with a t have "lg = logger this" "run' = run1" by (simp_all add: runTurn_def Let_def)
    moreover from a t Inl have "vp = verbose this" by (simp add: runTurn_def Let_def)
    ultimately show ?thesis using f by (simp add: keeps_def appendsIterations_refl printsNoMetadata_refl)
  next
    case (Inr it0)
    obtain ans run2 where o: "onSandbox (findFinalAnswer (it_response it0) (Some sb)) run1 = (ans, run2)"
      by (cases "onSandbox (findFinalAnswer (it_response it0) (Some sb)) run1")
    with a t Inr have "lg = map_option (logIteration (it0\<lparr>finalAnswer := ans\<rparr>)) (logger this)" "run' = run2"
      "vp = printEvent (PrintIteration (it0\<lparr>finalAnswer := ans\<rparr>) (i + 1)) (verbose this)"
      by (simp_all add: runTurn_def Let_def)
    with f onSandbox_frame[OF o] show ?thesis
      by (simp add: keeps_def appendsIterations_log printsNoMetadata_print)
  qed
qed

lemma storeHistory_frame:
  "adapterCalls (handler (storeHistory sb hist this run)) = adapterCalls (handler run)
   \<and> defaultModel (handler (storeHistory sb hist this run)) = defaultModel (handler run)"
  by (auto simp: storeHistory_def onSandbox_def split: option.splits prod.splits)

lemma finish_keeps:
  "finish sb p hist n answer this run = (r, this', run') \<Longrightarrow> keeps this run this' run'"
  using storeHistory_frame[of sb hist this run]
    printsNoMetadata_trans[OF printsNoMetadata_print[of "PrintFinalAnswer answer" "verbose this"]
      printsNoMetadata_print[of "PrintSummary n" "printEvent (PrintFinalAnswer answer) (verbose this)"]]
  by (auto simp: finish_def keeps_def Let_def appendsIterations_refl)

lemma defaultAnswer_keeps:
  "defaultAnswer env hist this run = (r, lg, run') \<Longrightarrow> keeps this run (this\<lparr>logger := lg\<rparr>) run'"
proof -
  assume a: "defaultAnswer env hist this run = (r, lg, run')"
  obtain x run1 where d: "directCompletion env (hist @ [finalRequest]) run = (x, run1)"
    by (cases "directCompletion env (hist @ [finalRequest]) run")
  from a d have "run' = run1" "lg = logger this \<or> (\<exists>it. lg = map_option (logIteration it) (logger this))"
    by (auto simp: defaultAnswer_def Let_def split: sum.splits)
  with directCompletion_frame[OF d] show ?thesis
    by (auto simp: keeps_def appendsIterations_refl appendsIterations_log printsNoMetadata_refl)
qed

lemma iterate_keeps:
  "iterate env sb p rp i hist this run = (r, this', run') \<Longrightarrow> keeps this run this' run'"
proof (induction "maxIterations this - i" arbitrary: i hist this run)
  case 0
  then have ge: "\<not> i < maxIterations this" by simp
  obtain x lg run1 where d: "defaultAnswer env hist this run = (x, lg, run1)"
    by (cases "defaultAnswer env hist this run")
  note k1 = defaultAnswer_keeps[OF d]
  show ?case
  proof (cases x)
    case (Inl e)
    with "0.prems" ge d have "this' = this\<lparr>logger := lg\<rparr>" "run' = run1"
      by (simp_all add: iterate.simps)
    with k1 show ?thesis by simp
  next
    case (Inr answer)
    with "0.prems" ge d
    have "finish sb p hist (maxIterations this) answer (this\<lparr>logger := lg\<rparr>) run1 = (r, this', run')"
      by (simp add: iterate.simps)
    from keeps_trans[OF k1 finish_keeps[OF this]] show ?thesis .
  qed
next
  case (Suc n)
  then have lt: "i < maxIterations this" by simp
  obtain x lg vp run1 where t: "runTurn env sb rp i hist this run = (x, lg, vp, run1)"
    by (cases "runTurn env sb rp i hist this run") auto
  note k1 = runTurn_keeps[OF t]
  show ?case
  proof (cases x)
    case (Inl e)
    with Suc.prems lt t have "this' = this\<lparr>logger := lg, verbose := vp\<rparr>" "run' = run1"
      by (simp_all add: iterate.simps)
    with k1 show ?thesis by simp
  next
    case (Inr it)
    show ?thesis
    proof (cases "finalAnswer it")
      case (Some answer)
      with Suc.prems lt t Inr
      have "finish sb p hist (i + 1) answer (this\<lparr>logger := lg, verbose := vp\<rparr>) run1 = (r, this', run')"
        by (simp add: iterate.simps)
      from keeps_trans[OF k1 finish_keeps[OF this]] show ?thesis .
    next
      case None
      with Suc.prems lt t Inr
      have rec: "iterate env sb p rp (i + 1) (hist @ formatIteration it) (this\<lparr>logger := lg, verbose := vp\<rparr>) run1
                 = (r, this', run')"
        by (simp add: iterate.simps)
      have "n = maxIterations (this\<lparr>logger := lg, verbose := vp\<rparr>) - (i + 1)"
        using Suc.hyps(2) by simp
      from keeps_trans[OF k1 Suc.hyps(1)[OF this rec]] show ?thesis .
    qed
  qed
qed


lemma acquireSandbox_keeps:
  "acquireSandbox env p this run = (sb, this1, run1) \<Longrightarrow>
   keeps this run this1 run1 \<and> adapterCalls (handler run1) = adapterCalls (handler run)
   \<and> model this1 = model this \<and> verbose this1 = verbose this \<and> logger this1 = logger this
   \<and> systemPrompt this1 = systemPrompt this"
  by (auto simp: acquireSandbox_def keeps_def onSandbox_def appendsIterations_refl printsNoMetadata_refl
      split: option.splits prod.splits if_splits)

lemma handler_of_completion:
  "defaultModel (case sm of Some s \<Rightarrow> registerModel (modelId s) s (newLMHandler m sm) | None \<Rightarrow> newLMHandler m sm) = m
   \<and> adapterCalls (case sm of Some s \<Rightarrow> registerModel (modelId s) s (newLMHandler m sm) | None \<Rightarrow> newLMHandler m sm) = []"
  by (simp add: newLMHandler_def registerModel_def split: option.splits)

lemma completion_keeps:
  assumes c: "completion env p rp this w = (r, this', w', ho)"
  shows "appendsIterations (logger this) (logger this')
         \<and> printsNoMetadata (verbose this) (verbose this')
         \<and> (case ho of None \<Rightarrow> True | Some h \<Rightarrow> list_all (\<lambda>call. fst call = model this) (adapterCalls h))"
proof (cases "depth this \<ge> maxDepth this")
  case True
  with c show ?thesis
    by (auto simp: completion_def appendsIterations_refl printsNoMetadata_refl split: prod.splits)
next
  case False
  let ?h = "case subModel this of Some s \<Rightarrow> registerModel (modelId s) s (newLMHandler (model this) (subModel this))
            | None \<Rightarrow> newLMHandler (model this) (subModel this)"
  let ?run0 = "\<lparr>outside = w, handler = ?h\<rparr>"
  obtain sb this1 run1 where a: "acquireSandbox env p this ?run0 = (sb, this1, run1)"
    by (cases "acquireSandbox env p this ?run0") auto
  obtain r2 this2 run2 where i: "iterate env sb p rp 0 (buildInitialHistory env (systemPrompt this1) p) this1 run1 = (r2, this2, run2)"
    by (cases "iterate env sb p rp 0 (buildInitialHistory env (systemPrompt this1) p) this1 run1") auto
  let ?run3 = "if persistent this2 then run2 else snd (onSandbox (\<lambda>st. ((), cleanup sb st)) run2)"
  from c False a i have res: "this' = this2" "ho = Some (handler ?run3)"
    by (auto simp: completion_def Let_def)
  have f3: "adapterCalls (handler ?run3) = adapterCalls (handler run2)"
    by (auto simp: onSandbox_def split: prod.splits)
  from keeps_trans[OF conjunct1[OF acquireSandbox_keeps[OF a]] iterate_keeps[OF i]]
  have k: "keeps this ?run0 this2 run2" .
  with handler_of_completion[where sm = "subModel this" and m = "model this"] f3 res
  show ?thesis
    by (auto simp: keeps_def)
qed

lemma helloRLM_constructed: "newRLM ''RLM'' helloConfig = Inr helloRLM"
  by (simp add: newRLM_def helloConfig_def helloRLM_def orElse_def Let_def logMetadata_def newRLMLogger_def
      printEvent_def rootModel0_def filterSensitiveKeys_def)

lemma noMarker_hello: "noMarker ''hello''"
  by code_simp

lemma neverMarks_helloGen: "neverMarks helloGen"
  by (simp add: neverMarks_def helloGen_def noMarker_hello)

text \<open>
  C10.  The direct completion call resolves its model at depth 0: without a model name it
  calls the default model of the handler, and every adapter call that the handler of a
  completion of the driver makes on the direct path is a call of the root model, whatever
  the sub-model.  The model that \<open>getModel\<close> gives is the default model, or the sub-model
  at depth 1, or the model registered under the supplied name.
\<close>

theorem direct_path_uses_root_model:
  "adapterCalls (fst (snd (LMHandler_completion gen p None h w))) = adapterCalls h @ [(defaultModel h, normalisePrompt p)]
   \<and> (case snd (snd (snd (completion env q rp this w'))) of
         None \<Rightarrow> True
       | Some used \<Rightarrow> list_all (\<lambda>call. fst call = model this) (adapterCalls used))
   \<and> (getModel h mn d = defaultModel h
       \<or> (d = 1 \<and> h_subModel h = Some (getModel h mn d))
       \<or> (\<exists>n. mn = Some n \<and> n \<noteq> [] \<and> map_of (models h) n = Some (getModel h mn d)))"
proof -
  have a: "adapterCalls (fst (snd (LMHandler_completion gen p None h w))) = adapterCalls h @ [(defaultModel h, normalisePrompt p)]"
    by (auto simp: LMHandler_completion_def getModel_def Let_def split: option.splits prod.splits sum.splits)
  obtain r this' w2 ho where c: "completion env q rp this w' = (r, this', w2, ho)"
    by (cases "completion env q rp this w'") auto
  from completion_keeps[OF c] c
  have b: "case snd (snd (snd (completion env q rp this w'))) of
         None \<Rightarrow> True
       | Some used \<Rightarrow> list_all (\<lambda>call. fst call = model this) (adapterCalls used)"
    by simp
  have g: "getModel h mn d = defaultModel h
       \<or> (d = 1 \<and> h_subModel h = Some (getModel h mn d))
       \<or> (\<exists>n. mn = Some n \<and> n \<noteq> [] \<and> map_of (models h) n = Some (getModel h mn d))"
    by (auto simp: getModel_def split: option.splits if_splits)
  from a b g show ?thesis by blast
qed

text \<open>
  C4, as amended.  The metadata record is written by the constructor of the driver, once,
  into a logger that has not written one yet; a completion call writes none.  So the log of
  a driver holds its metadata record before the iteration records of all its completions,
  and the records that a first and a second completion add are iteration records.
\<close>

theorem metadata_at_construction:
  assumes new: "newRLM sp config = Inr this"
    and lg0: "cfg_logger config = Some lg0"
    and c1: "completion env p1 rp1 this w = (r1, this1, w1, h1)"
    and c2: "completion env p2 rp2 this1 w1 = (r2, this2, w2, h2)"
  shows "\<exists>its1 its2.
      map_option entries (logger this)
        = Some (entries lg0 @ (if metadataLogged lg0 then [] else [MetadataEntry (metadataOf this)]))
    \<and> map_option entries (logger this1)
        = Some (entries lg0 @ (if metadataLogged lg0 then [] else [MetadataEntry (metadataOf this)]) @ its1)
    \<and> map_option entries (logger this2)
        = Some (entries lg0 @ (if metadataLogged lg0 then [] else [MetadataEntry (metadataOf this)]) @ its1 @ its2)
    \<and> list_all isIterationEntry its1
    \<and> list_all isIterationEntry its2"
proof -
  from new lg0 have e0: "map_option entries (logger this)
        = Some (entries lg0 @ (if metadataLogged lg0 then [] else [MetadataEntry (metadataOf this)]))"
    by (auto simp: newRLM_def Let_def logMetadata_def metadataOf_def split: if_splits)
  from completion_keeps[OF c1] have a1: "appendsIterations (logger this) (logger this1)" by simp
  from completion_keeps[OF c2] have a2: "appendsIterations (logger this1) (logger this2)" by simp
  from e0 a1 obtain its1 where e1: "map_option entries (logger this1)
        = Some (entries lg0 @ (if metadataLogged lg0 then [] else [MetadataEntry (metadataOf this)]) @ its1)"
    and i1: "list_all isIterationEntry its1"
    by (auto simp: appendsIterations_def split: option.splits)
  from e1 a2 obtain its2 where e2: "map_option entries (logger this2)
        = Some (entries lg0 @ (if metadataLogged lg0 then [] else [MetadataEntry (metadataOf this)]) @ its1 @ its2)"
    and i2: "list_all isIterationEntry its2"
    by (auto simp: appendsIterations_def split: option.splits)
  from e0 e1 e2 i1 i2 show ?thesis by blast
qed

theorem metadata_at_construction_witness:
  "newRLM ''RLM'' helloConfig = Inr helloRLM
   \<and> cfg_logger helloConfig = Some newRLMLogger
   \<and> (\<exists>its1 its2.
        map_option entries (logger helloRLM) = Some [MetadataEntry (metadataOf helloRLM)]
      \<and> map_option entries (logger (fst (snd (completion helloEnv (PText ''a'') None helloRLM ()))))
          = Some ([MetadataEntry (metadataOf helloRLM)] @ its1)
      \<and> map_option entries (logger (fst (snd (completion helloEnv (PText ''b'') None
            (fst (snd (completion helloEnv (PText ''a'') None helloRLM ()))) ()))))
          = Some ([MetadataEntry (metadataOf helloRLM)] @ its1 @ its2)
      \<and> list_all isIterationEntry its1
      \<and> list_all isIterationEntry its2)"
proof -
  let ?X1 = "completion helloEnv (PText ''a'') None helloRLM ()"
  let ?X2 = "completion helloEnv (PText ''b'') None (fst (snd ?X1)) ()"
  have l: "cfg_logger helloConfig = Some newRLMLogger" by (simp add: helloConfig_def)
  have c1: "?X1 = (fst ?X1, fst (snd ?X1), (), snd (snd (snd ?X1)))" by (cases ?X1) simp
  have c2: "?X2 = (fst ?X2, fst (snd ?X2), (), snd (snd (snd ?X2)))" by (cases ?X2) simp
  from metadata_at_construction[OF helloRLM_constructed l c1 c2]
  show ?thesis
    using helloRLM_constructed l by (simp add: newRLMLogger_def)
qed

text \<open>
  The claim as written fails for the second completion of a driver: two completions below
  the maximal depth, and one metadata record in the log.
\<close>

theorem two_completions_counterexample:
  "newRLM ''RLM'' helloConfig = Inr helloRLM
   \<and> depth helloRLM < maxDepth helloRLM
   \<and> (case completion helloEnv (PText ''a'') None helloRLM () of
        (r1, this1, w1, h1) \<Rightarrow>
          (case completion helloEnv (PText ''b'') None this1 w1 of
             (r2, this2, w2, h2) \<Rightarrow>
               depth this1 < maxDepth this1
               \<and> map_option (\<lambda>lg. length (metadataRecords (entries lg))) (logger this1) = Some 1
               \<and> map_option (\<lambda>lg. length (iterationRecords (entries lg))) (logger this1) = Some 2
               \<and> map_option (\<lambda>lg. length (metadataRecords (entries lg))) (logger this2) = Some 1
               \<and> map_option (\<lambda>lg. length (iterationRecords (entries lg))) (logger this2) = Some 4))"
proof -
  have "(case completion helloEnv (PText ''a'') None helloRLM () of
        (r1, this1, w1, h1) \<Rightarrow>
          (case completion helloEnv (PText ''b'') None this1 w1 of
             (r2, this2, w2, h2) \<Rightarrow>
               depth this1 < maxDepth this1
               \<and> map_option (\<lambda>lg. length (metadataRecords (entries lg))) (logger this1) = Some 1
               \<and> map_option (\<lambda>lg. length (iterationRecords (entries lg))) (logger this1) = Some 2
               \<and> map_option (\<lambda>lg. length (metadataRecords (entries lg))) (logger this2) = Some 1
               \<and> map_option (\<lambda>lg. length (iterationRecords (entries lg))) (logger this2) = Some 4))"
    by code_simp
  then show ?thesis by (simp add: helloRLM_constructed helloRLM_def)
qed

subsection \<open>The driver: the budget of iterations\<close>

lemma directCompletion_ok:
  "neverMarks (generateText env) \<Longrightarrow>
   \<exists>(res :: GenResult) w' run'. directCompletion env msgs run = (Inr (gen_text res), run')
      \<and> generateText env (defaultModel (handler run)) msgs (outside run) = (Inr res, w')
      \<and> noMarker (gen_text res)"
proof -
  assume nm: "neverMarks (generateText env)"
  obtain x w' where g: "generateText env (defaultModel (handler run)) msgs (outside run) = (x, w')"
    by (cases "generateText env (defaultModel (handler run)) msgs (outside run)")
  from nm have "case fst (generateText env (defaultModel (handler run)) msgs (outside run)) of Inl e \<Rightarrow> False | Inr res \<Rightarrow> noMarker (gen_text res)"
    unfolding neverMarks_def by blast
  with g obtain res where x: "x = Inr res" and n: "noMarker (gen_text res)"
    by (cases x) auto
  show ?thesis
    using g x n
    by (auto simp: directCompletion_def LMHandler_completion_def getModel_def normalisePrompt_def Let_def
      split: prod.splits sum.splits option.splits)
qed

lemma findFinalAnswer_noMarker:
  "noMarker s \<Longrightarrow> findFinalAnswer s sb st = (None, st)"
  by (simp add: findFinalAnswer_def noMarker_def)

lemma runTurn_ok:
  assumes nm: "neverMarks (generateText env)"
  shows "\<exists>it run'. runTurn env sb rp i hist this run =
           (Inr it, map_option (logIteration it) (logger this),
            printEvent (PrintIteration it (i + 1)) (verbose this), run')
         \<and> finalAnswer it = None
         \<and> adapterCalls (handler run') = adapterCalls (handler run) @ [(defaultModel (handler run), it_prompt it)]
         \<and> defaultModel (handler run') = defaultModel (handler run)"
proof -
  let ?cp = "hist @ [buildUserPrompt env rp i (contextCountOf sb run) (historyCountOf sb run)]"
  from directCompletion_ok[OF nm, of ?cp run] obtain res :: GenResult and w' run1 where
    d: "directCompletion env ?cp run = (Inr (gen_text res), run1)" and n: "noMarker (gen_text res)"
    by blast
  obtain blocks run2 where e: "executeBlocks sb (findCodeBlocks (gen_text res)) run1 = (blocks, run2)"
    by (cases "executeBlocks sb (findCodeBlocks (gen_text res)) run1")
  have on: "onSandbox (findFinalAnswer (gen_text res) (Some sb)) run2 = (None, run2)"
    using n by (simp add: onSandbox_def findFinalAnswer_noMarker)
  have "adapterCalls (handler run2) = adapterCalls (handler run) @ [(defaultModel (handler run), ?cp)]
        \<and> defaultModel (handler run2) = defaultModel (handler run)"
    using directCompletion_frame[OF d] executeBlocks_frame[OF e] by simp
  then show ?thesis
    using d e on by (simp add: runTurn_def completionTurn_def Let_def)
qed
lemma defaultAnswer_ok:
  assumes nm: "neverMarks (generateText env)"
  shows "\<exists>(res :: GenResult) w' run'.
           defaultAnswer env hist this run =
             (Inr (gen_text res), map_option (logIteration (epilogueRecord hist (gen_text res))) (logger this), run')
         \<and> generateText env (defaultModel (handler run)) (hist @ [finalRequest]) (outside run) = (Inr res, w')
         \<and> adapterCalls (handler run') = adapterCalls (handler run) @ [(defaultModel (handler run), hist @ [finalRequest])]
         \<and> defaultModel (handler run') = defaultModel (handler run)"
proof -
  from directCompletion_ok[OF nm, of "hist @ [finalRequest]" run]
  obtain res :: GenResult and w' run1 where
    d: "directCompletion env (hist @ [finalRequest]) run = (Inr (gen_text res), run1)"
    and g: "generateText env (defaultModel (handler run)) (hist @ [finalRequest]) (outside run) = (Inr res, w')"
    by blast
  from d g directCompletion_frame[OF d] show ?thesis
    by (auto simp: defaultAnswer_def Let_def epilogueRecord_def)
qed

lemma iterate_exhausts:
  assumes nm: "neverMarks (generateText env)"
  shows "\<exists>its (res :: GenResult) w1 w2 c this' run'.
      iterate env sb p rp i hist this run = (Inr c, this', run')
    \<and> rootModel c = modelId (model this) \<and> prompt c = p \<and> response c = gen_text res
    \<and> length its = maxIterations this - i
    \<and> list_all (\<lambda>it. finalAnswer it = None) its
    \<and> logger this' = map_option (\<lambda>lg. logIteration
          (epilogueRecord (hist @ concat (map formatIteration its)) (gen_text res)) (fold logIteration its lg))
          (logger this)
    \<and> verbose this' = fold printEvent
          (printIterations i its @ [PrintFinalAnswer (gen_text res), PrintSummary (maxIterations this)])
          (verbose this)
    \<and> adapterCalls (handler run') = adapterCalls (handler run)
          @ map (\<lambda>it. (defaultModel (handler run), it_prompt it)) its
          @ [(defaultModel (handler run), hist @ concat (map formatIteration its) @ [finalRequest])]
    \<and> generateText env (defaultModel (handler run)) (hist @ concat (map formatIteration its) @ [finalRequest]) w1
          = (Inr res, w2)"
proof (induction "maxIterations this - i" arbitrary: i hist this run)
  case 0
  then have ge: "\<not> i < maxIterations this" by simp
  from defaultAnswer_ok[OF nm, of hist this run]
  obtain res :: GenResult and w' run1 where
    d: "defaultAnswer env hist this run =
             (Inr (gen_text res), map_option (logIteration (epilogueRecord hist (gen_text res))) (logger this), run1)"
    and g: "generateText env (defaultModel (handler run)) (hist @ [finalRequest]) (outside run) = (Inr res, w')"
    and a: "adapterCalls (handler run1) = adapterCalls (handler run) @ [(defaultModel (handler run), hist @ [finalRequest])]"
    by blast
  let ?this1 = "this\<lparr>logger := map_option (logIteration (epilogueRecord hist (gen_text res))) (logger this)\<rparr>"
  obtain c this' run' where f: "finish sb p hist (maxIterations this) (gen_text res) ?this1 run1 = (Inr c, this', run')"
    by (simp add: finish_def Let_def)
  from f have fc: "rootModel c = modelId (model this)" "prompt c = p" "response c = gen_text res"
      "logger this' = logger ?this1"
      "verbose this' = printEvent (PrintSummary (maxIterations this)) (printEvent (PrintFinalAnswer (gen_text res)) (verbose this))"
      "run' = storeHistory sb hist ?this1 run1"
    by (auto simp: finish_def Let_def)
  have it: "iterate env sb p rp i hist this run = (Inr c, this', run')"
    using ge d f by (simp add: iterate.simps)
  show ?case
    apply (rule exI[of _ "[]"], rule exI[of _ res], rule exI[of _ "outside run"], rule exI[of _ w'],
           rule exI[of _ c], rule exI[of _ this'], rule exI[of _ run'])
    using it fc a g ge storeHistory_frame[of sb hist ?this1 run1]
    by simp
next
  case (Suc n)
  then have lt: "i < maxIterations this" by simp
  from runTurn_ok[OF nm, of sb rp i hist this run]
  obtain it run1 where
    t: "runTurn env sb rp i hist this run =
           (Inr it, map_option (logIteration it) (logger this),
            printEvent (PrintIteration it (i + 1)) (verbose this), run1)"
    and fa: "finalAnswer it = None"
    and ac: "adapterCalls (handler run1) = adapterCalls (handler run) @ [(defaultModel (handler run), it_prompt it)]"
    and dm: "defaultModel (handler run1) = defaultModel (handler run)"
    by blast
  let ?this1 = "this\<lparr>logger := map_option (logIteration it) (logger this),
                       verbose := printEvent (PrintIteration it (i + 1)) (verbose this)\<rparr>"
  let ?hist1 = "hist @ formatIteration it"
  have n: "n = maxIterations ?this1 - (i + 1)" using Suc.hyps(2) by simp
  from Suc.hyps(1)[OF n, of ?hist1 run1]
  obtain its and res :: GenResult and w1 w2 c this' run' where
    r: "iterate env sb p rp (i + 1) ?hist1 ?this1 run1 = (Inr c, this', run')"
    and c: "rootModel c = modelId (model this)" "prompt c = p" "response c = gen_text res"
    and len: "length its = maxIterations this - (i + 1)"
    and none: "list_all (\<lambda>it. finalAnswer it = None) its"
    and lg: "logger this' = map_option (\<lambda>lg. logIteration
          (epilogueRecord (?hist1 @ concat (map formatIteration its)) (gen_text res)) (fold logIteration its lg))
          (logger ?this1)"
    and vp: "verbose this' = fold printEvent
          (printIterations (i + 1) its @ [PrintFinalAnswer (gen_text res), PrintSummary (maxIterations this)])
          (verbose ?this1)"
    and calls: "adapterCalls (handler run') = adapterCalls (handler run1)
          @ map (\<lambda>it. (defaultModel (handler run1), it_prompt it)) its
          @ [(defaultModel (handler run1), ?hist1 @ concat (map formatIteration its) @ [finalRequest])]"
    and g: "generateText env (defaultModel (handler run1)) (?hist1 @ concat (map formatIteration its) @ [finalRequest]) w1
          = (Inr res, w2)"
    by auto
  have it': "iterate env sb p rp i hist this run = (Inr c, this', run')"
    using lt t fa r by (simp add: iterate.simps)
  have lg': "logger this' = map_option (\<lambda>lg. logIteration
          (epilogueRecord (hist @ concat (map formatIteration (it # its))) (gen_text res)) (fold logIteration (it # its) lg))
          (logger this)"
    using lg by (simp add: option.map_comp comp_def)
  show ?case
    apply (rule exI[of _ "it # its"], rule exI[of _ res], rule exI[of _ w1], rule exI[of _ w2],
           rule exI[of _ c], rule exI[of _ this'], rule exI[of _ run'])
    using it' c len none lg' vp calls g fa ac dm lt
    by simp
qed

lemma iterationRecords_append: "iterationRecords (a @ b) = iterationRecords a @ iterationRecords b"
  by (induction a rule: iterationRecords.induct) auto

lemma iterationRecords_fold:
  "iterationRecords (entries (fold logIteration its lg)) = iterationRecords (entries lg) @ its"
  by (induction its arbitrary: lg) (auto simp: logIteration_def iterationRecords_append)

text \<open>
  C1, as amended.  When the adapter never throws and never emits a marker, a completion
  started below the maximal depth runs \<open>maxIterations\<close> turns, each with a record without
  a final answer that goes to the logger and to the printer; it then makes one more adapter
  call, on the history of these turns followed by one message of role \<open>assistant\<close> that
  asks for a final answer, and returns the text of that call as its response.  A logger
  receives this last call as one more iteration record, so that its log grows by
  \<open>maxIterations + 1\<close> iteration records.
\<close>

theorem completion_exhausts_budget:
  assumes below: "depth this < maxDepth this" and nm: "neverMarks (generateText env)"
  shows "\<exists>its (res :: GenResult) w1 w2 c this' w' h.
      completion env p rootPrompt this w = (Inr c, this', w', Some h)
    \<and> response c = gen_text res
    \<and> length its = maxIterations this
    \<and> list_all (\<lambda>it. finalAnswer it = None) its
    \<and> verbose this' = fold printEvent
          (printIterations 0 its @ [PrintFinalAnswer (gen_text res), PrintSummary (maxIterations this)])
          (verbose this)
    \<and> map_option (\<lambda>lg. iterationRecords (entries lg)) (logger this')
        = map_option (\<lambda>lg. iterationRecords (entries lg) @ its
            @ [epilogueRecord (buildInitialHistory env (systemPrompt this) p @ concat (map formatIteration its))
                 (gen_text res)]) (logger this)
    \<and> adapterCalls h = map (\<lambda>it. (model this, it_prompt it)) its
        @ [(model this, buildInitialHistory env (systemPrompt this) p @ concat (map formatIteration its)
                          @ [finalRequest])]
    \<and> role finalRequest = Assistant
    \<and> generateText env (model this)
          (buildInitialHistory env (systemPrompt this) p @ concat (map formatIteration its) @ [finalRequest]) w1
        = (Inr res, w2)"
proof -
  let ?h = "case subModel this of Some s \<Rightarrow> registerModel (modelId s) s (newLMHandler (model this) (subModel this))
            | None \<Rightarrow> newLMHandler (model this) (subModel this)"
  let ?run0 = "\<lparr>outside = w, handler = ?h\<rparr>"
  obtain sb this1 run1 where a: "acquireSandbox env p this ?run0 = (sb, this1, run1)"
    by (cases "acquireSandbox env p this ?run0") auto
  note ak = acquireSandbox_keeps[OF a]
  from ak have k1: "maxIterations this1 = maxIterations this" "defaultModel (handler run1) = defaultModel (handler ?run0)"
    by (simp_all add: keeps_def)
  let ?H0 = "buildInitialHistory env (systemPrompt this1) p"
  from iterate_exhausts[OF nm, of sb p rootPrompt 0 ?H0 this1 run1]
  obtain its and res :: GenResult and w1 w2 c this2 run2 where
    i: "iterate env sb p rootPrompt 0 ?H0 this1 run1 = (Inr c, this2, run2)"
    and c: "response c = gen_text res"
    and len: "length its = maxIterations this1 - 0"
    and none: "list_all (\<lambda>it. finalAnswer it = None) its"
    and lg: "logger this2 = map_option (\<lambda>lg. logIteration
          (epilogueRecord (?H0 @ concat (map formatIteration its)) (gen_text res)) (fold logIteration its lg))
          (logger this1)"
    and vp: "verbose this2 = fold printEvent
          (printIterations 0 its @ [PrintFinalAnswer (gen_text res), PrintSummary (maxIterations this1)])
          (verbose this1)"
    and calls: "adapterCalls (handler run2) = adapterCalls (handler run1)
          @ map (\<lambda>it. (defaultModel (handler run1), it_prompt it)) its
          @ [(defaultModel (handler run1), ?H0 @ concat (map formatIteration its) @ [finalRequest])]"
    and g: "generateText env (defaultModel (handler run1)) (?H0 @ concat (map formatIteration its) @ [finalRequest]) w1
          = (Inr res, w2)"
    by blast
  let ?run3 = "if persistent this2 then run2 else snd (onSandbox (\<lambda>st. ((), cleanup sb st)) run2)"
  have comp: "completion env p rootPrompt this w = (Inr c, this2, outside ?run3, Some (handler ?run3))"
    using below a i by (auto simp: completion_def Let_def)
  have f3: "adapterCalls (handler ?run3) = adapterCalls (handler run2)"
    by (auto simp: onSandbox_def split: prod.splits)
  note h0 = handler_of_completion[where sm = "subModel this" and m = "model this"]
  have lg': "map_option (\<lambda>lg. iterationRecords (entries lg)) (logger this2)
        = map_option (\<lambda>lg. iterationRecords (entries lg) @ its
            @ [epilogueRecord (buildInitialHistory env (systemPrompt this) p @ concat (map formatIteration its))
                 (gen_text res)]) (logger this)"
    using lg ak
    by (simp add: option.map_comp comp_def iterationRecords_fold iterationRecords_append logIteration_def)
  show ?thesis
    apply (rule exI[of _ its], rule exI[of _ res], rule exI[of _ w1], rule exI[of _ w2],
           rule exI[of _ c], rule exI[of _ this2], rule exI[of _ "outside ?run3"], rule exI[of _ "handler ?run3"])
    using comp c len none vp lg' calls g f3 h0 ak k1
    by (simp add: finalRequest_def)
qed


theorem completion_exhausts_budget_witness:
  "depth helloRLM < maxDepth helloRLM
   \<and> neverMarks (generateText helloEnv)
   \<and> map_option (\<lambda>lg. length (iterationRecords (entries lg)))
        (logger (fst (snd (completion helloEnv (PText ''ctx'') None helloRLM ()))))
       = Some (maxIterations helloRLM + 1)
   \<and> map_option (\<lambda>h. length (adapterCalls h))
        (snd (snd (snd (completion helloEnv (PText ''ctx'') None helloRLM ()))))
       = Some (maxIterations helloRLM + 1)"
proof -
  have b: "depth helloRLM < maxDepth helloRLM" by (simp add: helloRLM_def)
  have n: "neverMarks (generateText helloEnv)" by (simp add: helloEnv_def neverMarks_helloGen)
  from completion_exhausts_budget[OF b n, of "PText ''ctx''" None "()"]
  show ?thesis using b n by (auto simp: helloRLM_def)
qed

text \<open>
  The claim as written fails for a driver with a logger: a budget of one iteration, and two
  iteration records in the log.
\<close>

theorem iteration_records_counterexample:
  "depth helloRLM < maxDepth helloRLM
   \<and> neverMarks helloGen
   \<and> maxIterations helloRLM = 1
   \<and> map_option (\<lambda>lg. length (iterationRecords (entries lg)))
        (logger (fst (snd (completion helloEnv (PText ''ctx'') None helloRLM ())))) = Some 2"
proof -
  have "map_option (\<lambda>lg. length (iterationRecords (entries lg)))
        (logger (fst (snd (completion helloEnv (PText ''ctx'') None helloRLM ())))) = Some 2"
    by code_simp
  then show ?thesis by (simp add: neverMarks_helloGen helloRLM_def)
qed

end
